theory Spec2Isabelle
  imports Main
begin

section \<open>JavaScript dates\<close>

text \<open>
  The date-range picker hook \<^verbatim>\<open>useDatepicker\<close> and its helpers work on JavaScript
  \<^verbatim>\<open>Date\<close> objects. A \<^verbatim>\<open>Date\<close> is modelled by its time value, the number of
  milliseconds since 1970-01-01T00:00:00Z, an unbounded integer (invalid dates and the
  range limit of \<open>8.64e15\<close> ms are left out). The local fields that \<^verbatim>\<open>getFullYear\<close>,
  \<^verbatim>\<open>getMonth\<close>, \<^verbatim>\<open>getDate\<close>, \<^verbatim>\<open>setDate\<close>, \<^verbatim>\<open>setMonth\<close>, \<^verbatim>\<open>setFullYear\<close> and
  \<^verbatim>\<open>setHours\<close> read and write are those of a time zone with offset zero and no daylight
  saving, so every local day has \<open>86400000\<close> ms. The calendar arithmetic follows the
  definitions of ECMA-262 (Day, TimeWithinDay, DaysInYear, DayFromYear, YearFromTime,
  InLeapYear, MonthFromTime, DateFromTime, MakeDay, MakeDate).
\<close>

type_synonym Date = int

definition msPerDay :: int where
  "msPerDay = 86400000"

definition Day :: "Date \<Rightarrow> int" where
  "Day t = t div msPerDay"

definition TimeWithinDay :: "Date \<Rightarrow> int" where
  "TimeWithinDay t = t mod msPerDay"

definition MakeDate :: "int \<Rightarrow> int \<Rightarrow> Date" where
  "MakeDate day time = day * msPerDay + time"

definition DaysInYear :: "int \<Rightarrow> int" where
  "DaysInYear y =
     (if y mod 4 \<noteq> 0 then 365
      else if y mod 100 \<noteq> 0 then 366
      else if y mod 400 \<noteq> 0 then 365
      else 366)"

definition DayFromYear :: "int \<Rightarrow> int" where
  "DayFromYear y =
     365 * (y - 1970) + (y - 1969) div 4 - (y - 1901) div 100 + (y - 1601) div 400"

text \<open>
  ECMA-262 defines the year of a day as the largest \<open>y\<close> with \<open>DayFromYear y \<le> d\<close>.
  The executable form below starts from the estimate \<open>1970 + 400 d / 146097\<close>, which is
  off by at most one year, and corrects it; \<open>YearFromDay_bounds\<close> and
  \<open>YearFromDay_unique\<close> show that it computes exactly that year.
\<close>

definition YearFromDay :: "int \<Rightarrow> int" where
  "YearFromDay d =
     (let e = 1970 + (400 * d) div 146097
      in if d < DayFromYear e then e - 1
         else if DayFromYear (e + 1) \<le> d then e + 1
         else e)"

definition InLeapYear :: "int \<Rightarrow> int" where
  "InLeapYear y = (if DaysInYear y = 366 then 1 else 0)"

definition DayWithinYear :: "int \<Rightarrow> int" where
  "DayWithinYear d = d - DayFromYear (YearFromDay d)"

text \<open>Days of the year before the first of month \<open>m\<close> (0-based), \<open>l\<close> the leap-year flag.\<close>

definition DaysBeforeMonth :: "int \<Rightarrow> int \<Rightarrow> int" where
  "DaysBeforeMonth l m =
     (if m = 0 then 0
      else if m = 1 then 31
      else if m = 2 then 59 + l
      else if m = 3 then 90 + l
      else if m = 4 then 120 + l
      else if m = 5 then 151 + l
      else if m = 6 then 181 + l
      else if m = 7 then 212 + l
      else if m = 8 then 243 + l
      else if m = 9 then 273 + l
      else if m = 10 then 304 + l
      else 334 + l)"

definition MonthFromDay :: "int \<Rightarrow> int" where
  "MonthFromDay d =
     (let w = DayWithinYear d; l = InLeapYear (YearFromDay d)
      in if w < 31 then 0
         else if w < 59 + l then 1
         else if w < 90 + l then 2
         else if w < 120 + l then 3
         else if w < 151 + l then 4
         else if w < 181 + l then 5
         else if w < 212 + l then 6
         else if w < 243 + l then 7
         else if w < 273 + l then 8
         else if w < 304 + l then 9
         else if w < 334 + l then 10
         else 11)"

definition DateFromDay :: "int \<Rightarrow> int" where
  "DateFromDay d =
     DayWithinYear d - DaysBeforeMonth (InLeapYear (YearFromDay d)) (MonthFromDay d) + 1"

text \<open>
  MakeDay carries a month outside \<open>0..11\<close> into the year and lets the day of the month
  run over linearly, which is what makes \<^verbatim>\<open>setDate(getDate() + n)\<close> and
  \<^verbatim>\<open>setFullYear(y, m + 1, 0)\<close> work in the source.
\<close>

definition MakeDay :: "int \<Rightarrow> int \<Rightarrow> int \<Rightarrow> int" where
  "MakeDay y m dt =
     (let ym = y + m div 12; mn = m mod 12
      in DayFromYear ym + DaysBeforeMonth (InLeapYear ym) mn + dt - 1)"

definition getFullYear :: "Date \<Rightarrow> int" where
  "getFullYear t = YearFromDay (Day t)"

definition getMonth :: "Date \<Rightarrow> int" where
  "getMonth t = MonthFromDay (Day t)"

definition getDate :: "Date \<Rightarrow> int" where
  "getDate t = DateFromDay (Day t)"

definition setDate :: "Date \<Rightarrow> int \<Rightarrow> Date" where
  "setDate t dt = MakeDate (MakeDay (getFullYear t) (getMonth t) dt) (TimeWithinDay t)"

definition setMonth :: "Date \<Rightarrow> int \<Rightarrow> int \<Rightarrow> Date" where
  "setMonth t m dt = MakeDate (MakeDay (getFullYear t) m dt) (TimeWithinDay t)"

definition setFullYear :: "Date \<Rightarrow> int \<Rightarrow> int \<Rightarrow> int \<Rightarrow> Date" where
  "setFullYear t y m dt = MakeDate (MakeDay y m dt) (TimeWithinDay t)"

text \<open>\<^verbatim>\<open>setHours(0, 0, 0, 0)\<close>, the only way the source calls \<^verbatim>\<open>setHours\<close>.\<close>

definition setHours0 :: "Date \<Rightarrow> Date" where
  "setHours0 t = MakeDate (Day t) 0"

text \<open>
  \<^verbatim>\<open>new Date(y, m, d, 0, 0, 0)\<close>; the constructor reads a year from 0 to 99 as
  \<open>1900 + y\<close>.
\<close>

definition newDate :: "int \<Rightarrow> int \<Rightarrow> int \<Rightarrow> Date" where
  "newDate y m d = MakeDate (MakeDay (if 0 \<le> y \<and> y \<le> 99 then 1900 + y else y) m d) 0"

subsection \<open>Facts of the calendar\<close>

lemma div_bounds:
  "0 < (n::int) \<Longrightarrow> n * (x div n) \<le> x \<and> x < n * (x div n) + n"
  using mult_div_mod_eq [of n x] pos_mod_bound [of n x] pos_mod_sign [of n x] by linarith

lemma div_step:
  fixes x :: int
  assumes "0 < n"
  shows "(x + 1) div n = x div n + (if (x + 1) mod n = 0 then 1 else 0)"
proof (cases "x mod n = n - 1")
  case True
  have "x + 1 = n * (x div n + 1) + 0"
    using mult_div_mod_eq [of n x] True by (simp add: algebra_simps)
  from int_div_pos_eq [OF this] int_mod_pos_eq [OF this] assms
  show ?thesis by simp
next
  case False
  have b: "0 \<le> x mod n" "x mod n < n" using assms by simp_all
  have "x + 1 = n * (x div n) + (x mod n + 1)"
    using mult_div_mod_eq [of n x] by simp
  from int_div_pos_eq [OF this] int_mod_pos_eq [OF this] b False
  show ?thesis by simp
qed

lemma mod_shift:
  fixes y :: int
  shows "(y - 1969 + 1) mod 4 = y mod 4" "(y - 1901 + 1) mod 100 = y mod 100"
    "(y - 1601 + 1) mod 400 = y mod 400"
proof -
  have "y - 1969 + 1 = y + 4 * (- 492)" by simp
  then show "(y - 1969 + 1) mod 4 = y mod 4" by (metis mod_mult_self2)
  have "y - 1901 + 1 = y + 100 * (- 19)" by simp
  then show "(y - 1901 + 1) mod 100 = y mod 100" by (metis mod_mult_self2)
  have "y - 1601 + 1 = y + 400 * (- 4)" by simp
  then show "(y - 1601 + 1) mod 400 = y mod 400" by (metis mod_mult_self2)
qed

lemma century_mods:
  fixes y :: int
  shows "y mod 100 = 0 \<Longrightarrow> y mod 4 = 0" "y mod 400 = 0 \<Longrightarrow> y mod 100 = 0"
proof -
  have "y mod 100 mod 4 = y mod 4" by (rule mod_mod_cancel) simp
  then show "y mod 100 = 0 \<Longrightarrow> y mod 4 = 0" by simp
  have "y mod 400 mod 100 = y mod 100" by (rule mod_mod_cancel) simp
  then show "y mod 400 = 0 \<Longrightarrow> y mod 100 = 0" by simp
qed

lemma DayFromYear_Suc: "DayFromYear (y + 1) = DayFromYear y + DaysInYear y"
proof -
  have a: "(y + 1 - 1969) div 4 = (y - 1969) div 4 + (if y mod 4 = 0 then 1 else 0)"
    using div_step [of 4 "y - 1969"] mod_shift(1) [of y] by (simp add: algebra_simps)
  have b: "(y + 1 - 1901) div 100 = (y - 1901) div 100 + (if y mod 100 = 0 then 1 else 0)"
    using div_step [of 100 "y - 1901"] mod_shift(2) [of y] by (simp add: algebra_simps)
  have c: "(y + 1 - 1601) div 400 = (y - 1601) div 400 + (if y mod 400 = 0 then 1 else 0)"
    using div_step [of 400 "y - 1601"] mod_shift(3) [of y] by (simp add: algebra_simps)
  show ?thesis
    unfolding DayFromYear_def DaysInYear_def a b c
    using century_mods [of y] by auto
qed

lemma DaysInYear_pos: "0 < DaysInYear y"
  by (simp add: DaysInYear_def)

lemma DayFromYear_mono_nat: "DayFromYear y \<le> DayFromYear (y + int n)"
proof (induction n)
  case 0
  then show ?case by simp
next
  case (Suc n)
  have "y + int (Suc n) = y + int n + 1" by simp
  then have "DayFromYear (y + int (Suc n)) = DayFromYear (y + int n) + DaysInYear (y + int n)"
    using DayFromYear_Suc [of "y + int n"] by (simp only:)
  with Suc DaysInYear_pos [of "y + int n"] show ?case by linarith
qed

lemma DayFromYear_mono: "y \<le> z \<Longrightarrow> DayFromYear y \<le> DayFromYear z"
  using DayFromYear_mono_nat [of y "nat (z - y)"] by simp

lemma DayFromYear_estimate:
  "146097 * (y - 1970) - 146097 < 400 * DayFromYear y \<and>
   400 * DayFromYear y < 146097 * (y - 1970) + 146097"
proof -
  have a: "4 * ((y - 1969) div 4) \<le> y - 1969 \<and> y - 1969 < 4 * ((y - 1969) div 4) + 4"
    by (rule div_bounds) simp
  have b: "100 * ((y - 1901) div 100) \<le> y - 1901 \<and>
      y - 1901 < 100 * ((y - 1901) div 100) + 100"
    by (rule div_bounds) simp
  have c: "400 * ((y - 1601) div 400) \<le> y - 1601 \<and>
      y - 1601 < 400 * ((y - 1601) div 400) + 400"
    by (rule div_bounds) simp
  show ?thesis
    unfolding DayFromYear_def using a b c by (simp add: algebra_simps)
qed

lemma YearFromDay_bounds:
  "DayFromYear (YearFromDay d) \<le> d \<and> d < DayFromYear (YearFromDay d + 1)"
proof -
  define e where "e = 1970 + (400 * d) div 146097"
  have "146097 * ((400 * d) div 146097) \<le> 400 * d \<and>
        400 * d < 146097 * ((400 * d) div 146097) + 146097"
    by (rule div_bounds) simp
  then have e1: "146097 * (e - 1970) \<le> 400 * d"
    and e2: "400 * d < 146097 * (e - 1970) + 146097"
    unfolding e_def by simp_all
  have lo: "DayFromYear (e - 1) \<le> d"
    using DayFromYear_estimate [of "e - 1"] e1 by (simp add: algebra_simps)
  have hi: "d < DayFromYear (e + 1 + 1)"
    using DayFromYear_estimate [of "e + 1 + 1"] e2 by (simp add: algebra_simps)
  show ?thesis
    using lo hi unfolding YearFromDay_def e_def [symmetric] Let_def
    by auto
qed

lemma YearFromDay_unique:
  assumes "DayFromYear y \<le> d" and "d < DayFromYear (y + 1)"
  shows "YearFromDay d = y"
proof (rule ccontr)
  assume ne: "YearFromDay d \<noteq> y"
  note b = YearFromDay_bounds [of d]
  show False
  proof (cases "YearFromDay d < y")
    case True
    then have "DayFromYear (YearFromDay d + 1) \<le> DayFromYear y"
      by (intro DayFromYear_mono) simp
    with b assms show False by linarith
  next
    case False
    with ne have "y + 1 \<le> YearFromDay d" by simp
    then have "DayFromYear (y + 1) \<le> DayFromYear (YearFromDay d)"
      by (rule DayFromYear_mono)
    with b assms show False by linarith
  qed
qed

lemma InLeapYear_cases: "InLeapYear y = 0 \<or> InLeapYear y = 1"
  by (simp add: InLeapYear_def)

lemma DaysInYear_leap: "DaysInYear y = 365 + InLeapYear y"
  by (simp add: InLeapYear_def DaysInYear_def)

lemma DayWithinYear_bounds:
  "0 \<le> DayWithinYear d \<and> DayWithinYear d < 365 + InLeapYear (YearFromDay d)"
  using YearFromDay_bounds [of d] DayFromYear_Suc [of "YearFromDay d"]
  by (simp add: DayWithinYear_def DaysInYear_leap)

lemma MonthFromDay_range: "0 \<le> MonthFromDay d \<and> MonthFromDay d < 12"
  by (simp add: MonthFromDay_def Let_def)

lemma MonthFromDay_cases:
  fixes d :: int
  defines "w \<equiv> DayWithinYear d" and "l \<equiv> InLeapYear (YearFromDay d)"
  shows "MonthFromDay d = 0 \<and> w < 31
    \<or> MonthFromDay d = 1 \<and> 31 \<le> w
    \<or> MonthFromDay d = 2 \<and> 59 + l \<le> w
    \<or> MonthFromDay d = 3 \<and> 90 + l \<le> w
    \<or> MonthFromDay d = 4 \<and> 120 + l \<le> w
    \<or> MonthFromDay d = 5 \<and> 151 + l \<le> w
    \<or> MonthFromDay d = 6 \<and> 181 + l \<le> w
    \<or> MonthFromDay d = 7 \<and> 212 + l \<le> w
    \<or> MonthFromDay d = 8 \<and> 243 + l \<le> w
    \<or> MonthFromDay d = 9 \<and> 273 + l \<le> w
    \<or> MonthFromDay d = 10 \<and> 304 + l \<le> w
    \<or> MonthFromDay d = 11 \<and> 334 + l \<le> w"
  unfolding MonthFromDay_def Let_def w_def l_def by simp

lemma DateFromDay_pos: "1 \<le> DateFromDay d"
proof -
  have "DaysBeforeMonth (InLeapYear (YearFromDay d)) (MonthFromDay d) \<le> DayWithinYear d"
    using MonthFromDay_cases [of d] DayWithinYear_bounds [of d]
    by (elim disjE conjE) (simp_all add: DaysBeforeMonth_def)
  then show ?thesis by (simp add: DateFromDay_def)
qed

text \<open>Reading the fields of a day and making the day from them again gives the day back.\<close>

lemma MakeDay_inverse:
  "MakeDay (YearFromDay d) (MonthFromDay d) (DateFromDay d + n) = d + n"
proof -
  have "MonthFromDay d div 12 = 0" "MonthFromDay d mod 12 = MonthFromDay d"
    using MonthFromDay_range [of d] by simp_all
  then show ?thesis
    by (simp add: MakeDay_def DateFromDay_def DayWithinYear_def)
qed

lemma MakeDay_normal: "MakeDay y m dt = MakeDay (y + m div 12) (m mod 12) dt"
  by (simp add: MakeDay_def)

lemma MakeDay_index: "MakeDay y m dt = MakeDay 0 (12 * y + m) dt"
proof -
  have "(12 * y + m) div 12 = y + m div 12" "(12 * y + m) mod 12 = m mod 12"
    by simp_all
  then show ?thesis
    unfolding MakeDay_def Let_def by simp
qed

text \<open>The first of a month reads back as that year, that month and day 1.\<close>

lemma MakeDay_first:
  assumes "0 \<le> m" "m < 12"
  shows "YearFromDay (MakeDay y m 1) = y"
    and "MonthFromDay (MakeDay y m 1) = m"
    and "DateFromDay (MakeDay y m 1) = 1"
proof -
  have m: "m div 12 = 0" "m mod 12 = m" using assms by simp_all
  have d: "MakeDay y m 1 = DayFromYear y + DaysBeforeMonth (InLeapYear y) m"
    by (simp add: MakeDay_def m)
  have r: "0 \<le> DaysBeforeMonth (InLeapYear y) m"
    "DaysBeforeMonth (InLeapYear y) m < 365 + InLeapYear y"
    using InLeapYear_cases [of y] by (auto simp: DaysBeforeMonth_def)
  show y: "YearFromDay (MakeDay y m 1) = y"
    unfolding d using r DayFromYear_Suc [of y]
    by (intro YearFromDay_unique) (simp_all add: DaysInYear_leap)
  have w: "DayWithinYear (MakeDay y m 1) = DaysBeforeMonth (InLeapYear y) m"
    unfolding DayWithinYear_def y by (simp add: d)
  have cases: "m = 0 \<or> m = 1 \<or> m = 2 \<or> m = 3 \<or> m = 4 \<or> m = 5 \<or> m = 6 \<or> m = 7
      \<or> m = 8 \<or> m = 9 \<or> m = 10 \<or> m = 11"
    using assms by arith
  show mo: "MonthFromDay (MakeDay y m 1) = m"
    unfolding MonthFromDay_def w y Let_def
    using cases InLeapYear_cases [of y]
    by (elim disjE) (simp_all add: DaysBeforeMonth_def)
  show "DateFromDay (MakeDay y m 1) = 1"
    unfolding DateFromDay_def w y mo by simp
qed

lemma msPerDay_pos: "0 < msPerDay"
  by (simp add: msPerDay_def)

lemma Day_MakeDate:
  assumes "0 \<le> tm" "tm < msPerDay"
  shows "Day (MakeDate d tm) = d" and "TimeWithinDay (MakeDate d tm) = tm"
proof -
  have e: "MakeDate d tm = msPerDay * d + tm" by (simp add: MakeDate_def)
  show "Day (MakeDate d tm) = d"
    unfolding Day_def using int_div_pos_eq [OF e assms] .
  show "TimeWithinDay (MakeDate d tm) = tm"
    unfolding TimeWithinDay_def using int_mod_pos_eq [OF e assms] .
qed

lemma TimeWithinDay_range: "0 \<le> TimeWithinDay t \<and> TimeWithinDay t < msPerDay"
  using msPerDay_pos by (simp add: TimeWithinDay_def)

lemma Day_split: "t = Day t * msPerDay + TimeWithinDay t"
  by (simp add: Day_def TimeWithinDay_def)

lemma Day_mono: "a \<le> b \<Longrightarrow> Day a \<le> Day b"
  unfolding Day_def using msPerDay_pos by (simp add: zdiv_mono1)

lemma setDate_relative: "setDate t (getDate t + n) = t + n * msPerDay"
proof -
  have "MakeDay (getFullYear t) (getMonth t) (getDate t + n) = Day t + n"
    unfolding getFullYear_def getMonth_def getDate_def by (rule MakeDay_inverse)
  then have "setDate t (getDate t + n) = (Day t + n) * msPerDay + TimeWithinDay t"
    by (simp add: setDate_def MakeDate_def)
  also have "\<dots> = t + n * msPerDay"
    using Day_split [of t] by (simp add: algebra_simps)
  finally show ?thesis .
qed

lemma setHours0_eq: "setHours0 t = t - TimeWithinDay t"
  using Day_split [of t] by (simp add: setHours0_def MakeDate_def)

lemma Day_setHours0: "Day (setHours0 t) = Day t" "TimeWithinDay (setHours0 t) = 0"
  unfolding setHours0_def using msPerDay_pos by (simp_all add: Day_MakeDate)

lemma next_day: "setHours0 (setDate d (getDate d + 1)) = (Day d + 1) * msPerDay"
proof -
  have "msPerDay \<noteq> 0" by (simp add: msPerDay_def)
  then have "Day (d + msPerDay) = Day d + 1"
    unfolding Day_def by (rule div_add_self2)
  then show ?thesis
    by (simp add: setDate_relative setHours0_def MakeDate_def)
qed

lemma getMonth_range: "0 \<le> getMonth t \<and> getMonth t < 12"
  unfolding getMonth_def by (rule MonthFromDay_range)

section \<open>The date helpers of the bundle\<close>

text \<open>
  The hook imports its date arithmetic from date-fns; the bundle \<^verbatim>\<open>part_000\<close> carries
  the minified bodies. Each definition names the date-fns function and, in its comment,
  the minified name. \<^verbatim>\<open>toDate\<close> (\<^verbatim>\<open>x\<close>) copies a \<^verbatim>\<open>Date\<close> and \<^verbatim>\<open>toInteger\<close> (\<^verbatim>\<open>D\<close>)
  is the identity on integers, so neither appears.
\<close>

datatype error = RangeError | TypeError

text \<open>\<^verbatim>\<open>Qe\<close>: \<^verbatim>\<open>r.setDate(r.getDate() + n)\<close>.\<close>

definition addDays :: "Date \<Rightarrow> int \<Rightarrow> Date" where
  "addDays e t = setDate e (getDate e + t)"

text \<open>\<^verbatim>\<open>rt\<close> and \<^verbatim>\<open>nt\<close> compare the time values.\<close>

definition isBefore :: "Date \<Rightarrow> Date \<Rightarrow> bool" where
  "isBefore e t = (e < t)"

definition isAfter :: "Date \<Rightarrow> Date \<Rightarrow> bool" where
  "isAfter e t = (e > t)"

text \<open>\<^verbatim>\<open>at\<close>: throws \<^verbatim>\<open>RangeError('Invalid interval')\<close> unless \<open>start \<le> end\<close>.\<close>

definition isWithinInterval :: "Date \<Rightarrow> Date \<Rightarrow> Date \<Rightarrow> error + bool" where
  "isWithinInterval e start fin =
     (if \<not> start \<le> fin then Inl RangeError else Inr (start \<le> e \<and> e \<le> fin))"

text \<open>\<^verbatim>\<open>ot\<close> and \<^verbatim>\<open>it\<close>.\<close>

definition startOfDay :: "Date \<Rightarrow> Date" where
  "startOfDay e = setHours0 e"

definition isSameDay :: "Date \<Rightarrow> Date \<Rightarrow> bool" where
  "isSameDay e t = (startOfDay e = startOfDay t)"

text \<open>\<^verbatim>\<open>dt\<close>: the day before the first of the following month, read with \<^verbatim>\<open>getDate\<close>.\<close>

definition getDaysInMonth :: "Date \<Rightarrow> int" where
  "getDaysInMonth e = getDate (setHours0 (setFullYear 0 (getFullYear e) (getMonth e + 1) 0))"

text \<open>\<^verbatim>\<open>st\<close>: the day of the month is clamped to the length of the target month.\<close>

definition addMonths :: "Date \<Rightarrow> int \<Rightarrow> Date" where
  "addMonths e t =
     (let a = getMonth e + t;
          o' = setHours0 (setFullYear 0 (getFullYear e) a 1);
          i = getDaysInMonth o'
      in setMonth e a (min i (getDate e)))"

text \<open>\<^verbatim>\<open>Ke\<close>.\<close>

definition startOfMonth :: "Date \<Rightarrow> Date" where
  "startOfMonth e = setHours0 (setDate e 1)"

lemma addDays_eq: "addDays t n = t + n * msPerDay"
  unfolding addDays_def by (rule setDate_relative)

text \<open>
  \<^verbatim>\<open>Ve\<close>, eachDayOfInterval with step 1: it throws unless \<open>start \<le> end\<close>, then collects
  the midnights from that of \<open>start\<close> on while they are not after \<open>end\<close>. The loop
  \<^verbatim>\<open>for (; d.getTime() <= o; ) i.push(x(d)), d.setDate(d.getDate() + 1), d.setHours(0, 0, 0, 0)\<close>
  is \<open>eachDayLoop\<close>; it terminates because every round moves \<open>d\<close> forward.
\<close>

function eachDayLoop :: "Date \<Rightarrow> int \<Rightarrow> Date list" where
  "eachDayLoop d lim =
     (if d \<le> lim then d # eachDayLoop (setHours0 (setDate d (getDate d + 1))) lim else [])"
  by pat_completeness auto
termination
proof (relation "measure (\<lambda>(d, lim). nat (lim - d + 1))")
  show "wf (measure (\<lambda>(d, lim). nat (lim - d + 1)))" by simp
next
  fix d lim :: int
  assume "d \<le> lim"
  have "setHours0 (setDate d (getDate d + 1)) = setHours0 (d + msPerDay)"
    by (simp add: setDate_relative)
  also have "\<dots> = d + msPerDay - TimeWithinDay d"
    by (simp add: setHours0_eq TimeWithinDay_def)
  finally have "d < setHours0 (setDate d (getDate d + 1))"
    using TimeWithinDay_range [of d] by simp
  with \<open>d \<le> lim\<close>
  show "((setHours0 (setDate d (getDate d + 1)), lim), (d, lim))
      \<in> measure (\<lambda>(d, lim). nat (lim - d + 1))"
    by simp
qed

declare eachDayLoop.simps [simp del]

definition eachDayOfInterval :: "Date \<Rightarrow> Date \<Rightarrow> error + Date list" where
  "eachDayOfInterval start fin =
     (if \<not> start \<le> fin then Inl RangeError else Inr (eachDayLoop (setHours0 start) fin))"

lemma eachDayLoop_step:
  "eachDayLoop d lim = (if d \<le> lim then d # eachDayLoop ((Day d + 1) * msPerDay) lim else [])"
  using eachDayLoop.simps [of d lim] by (simp only: next_day)

text \<open>Every day the loop yields is a whole number of days after its start and not after the limit.\<close>

lemma eachDayLoop_members:
  assumes "x \<in> set (eachDayLoop d lim)" and "TimeWithinDay d = 0"
  shows "\<exists>k\<ge>0. x = d + k * msPerDay \<and> x \<le> lim"
  using assms
proof (induction d lim rule: eachDayLoop.induct)
  case (1 d lim)
  show ?case
  proof (cases "d \<le> lim")
    case False
    with "1.prems"(1) show ?thesis by (simp add: eachDayLoop.simps [of d lim])
  next
    case True
    let ?n = "setHours0 (setDate d (getDate d + 1))"
    have "?n = (Day d + 1) * msPerDay" by (rule next_day)
    also have "\<dots> = d + msPerDay"
      using "1.prems"(2) Day_split [of d] by (simp add: algebra_simps)
    finally have n: "?n = d + msPerDay" .
    from True "1.prems"(1) have "x = d \<or> x \<in> set (eachDayLoop ?n lim)"
      by (simp add: eachDayLoop.simps [of d lim])
    then show ?thesis
    proof
      assume "x = d"
      with True show ?thesis by (intro exI [of _ 0]) simp
    next
      assume m: "x \<in> set (eachDayLoop ?n lim)"
      have "TimeWithinDay ?n = 0" by (rule Day_setHours0)
      from "1.IH" [OF True m this] obtain k where "0 \<le> k" "x = ?n + k * msPerDay" "x \<le> lim"
        by blast
      then show ?thesis
        unfolding n by (intro exI [of _ "k + 1"]) (simp add: algebra_simps)
    qed
  qed
qed

lemma eachDayOfInterval_members:
  assumes "eachDayOfInterval t r = Inr ds" and "x \<in> set ds"
  shows "\<exists>k\<ge>0. x = addDays (startOfDay t) k \<and> x \<le> r"
proof -
  from assms have "x \<in> set (eachDayLoop (setHours0 t) r)"
    by (auto simp: eachDayOfInterval_def split: if_splits)
  from eachDayLoop_members [OF this Day_setHours0(2)]
  show ?thesis by (simp add: addDays_eq startOfDay_def)
qed

lemma eachDayOfInterval_Inr: "eachDayOfInterval t r = Inr ds \<Longrightarrow> t \<le> r"
  by (simp add: eachDayOfInterval_def split: if_splits)

subsection \<open>Months by index\<close>

text \<open>
  Month \<open>m\<close> of year \<open>y\<close> has the index \<open>12 y + m\<close>; \<open>monthStart k\<close> is the midnight that
  begins the month of index \<open>k\<close>. The window functions only ever move such anchors.
\<close>

definition monthStart :: "int \<Rightarrow> Date" where
  "monthStart k = MakeDate (MakeDay 0 k 1) 0"

definition monthIndex :: "Date \<Rightarrow> int" where
  "monthIndex t = 12 * getFullYear t + getMonth t"

lemma monthStart_fields:
  "Day (monthStart k) = MakeDay 0 k 1"
  "TimeWithinDay (monthStart k) = 0"
  "getFullYear (monthStart k) = k div 12"
  "getMonth (monthStart k) = k mod 12"
  "getDate (monthStart k) = 1"
proof -
  show d: "Day (monthStart k) = MakeDay 0 k 1"
    unfolding monthStart_def using msPerDay_pos by (simp add: Day_MakeDate)
  show "TimeWithinDay (monthStart k) = 0"
    unfolding monthStart_def using msPerDay_pos by (simp add: Day_MakeDate)
  have n: "MakeDay 0 k 1 = MakeDay (k div 12) (k mod 12) 1"
    using MakeDay_normal [of 0 k 1] by simp
  have r: "0 \<le> k mod 12" "k mod 12 < 12" by simp_all
  show "getFullYear (monthStart k) = k div 12"
    unfolding getFullYear_def d n using r by (rule MakeDay_first)
  show "getMonth (monthStart k) = k mod 12"
    unfolding getMonth_def d n using r by (rule MakeDay_first)
  show "getDate (monthStart k) = 1"
    unfolding getDate_def d n using r by (rule MakeDay_first)
qed

lemma monthIndex_monthStart: "monthIndex (monthStart k) = k"
  by (simp add: monthIndex_def monthStart_fields)

lemma startOfMonth_eq: "startOfMonth t = monthStart (monthIndex t)"
proof -
  have "Day (setDate t 1) = MakeDay (getFullYear t) (getMonth t) 1"
    unfolding setDate_def using TimeWithinDay_range [of t] by (simp add: Day_MakeDate)
  also have "\<dots> = MakeDay 0 (monthIndex t) 1"
    unfolding monthIndex_def by (rule MakeDay_index)
  finally show ?thesis
    by (simp add: startOfMonth_def setHours0_def monthStart_def)
qed

lemma getDaysInMonth_pos: "1 \<le> getDaysInMonth t"
  unfolding getDaysInMonth_def getDate_def by (rule DateFromDay_pos)

lemma addMonths_monthStart: "addMonths (monthStart k) n = monthStart (k + n)"
proof -
  have m: "min (getDaysInMonth x) 1 = 1" for x
    using getDaysInMonth_pos [of x] by simp
  have "addMonths (monthStart k) n =
      MakeDate (MakeDay (k div 12) (k mod 12 + n) 1) 0"
    by (simp add: addMonths_def Let_def monthStart_fields setMonth_def m)
  also have "MakeDay (k div 12) (k mod 12 + n) 1 = MakeDay 0 (k + n) 1"
  proof -
    have "12 * (k div 12) + (k mod 12 + n) = k + n" by simp
    moreover have "MakeDay (k div 12) (k mod 12 + n) 1
        = MakeDay 0 (12 * (k div 12) + (k mod 12 + n)) 1"
      by (rule MakeDay_index)
    ultimately show ?thesis by simp
  qed
  finally show ?thesis by (simp add: monthStart_def)
qed

text \<open>Month starts grow with the index.\<close>

lemma month_succ:
  fixes k :: int
  shows "k mod 12 = 11 \<Longrightarrow> (k + 1) div 12 = k div 12 + 1 \<and> (k + 1) mod 12 = 0"
    and "k mod 12 \<noteq> 11 \<Longrightarrow> (k + 1) div 12 = k div 12 \<and> (k + 1) mod 12 = k mod 12 + 1"
proof -
  assume a: "k mod 12 = 11"
  have "k + 1 = 12 * (k div 12 + 1) + 0"
    using mult_div_mod_eq [of 12 k] a by simp
  from int_div_pos_eq [OF this] int_mod_pos_eq [OF this]
  show "(k + 1) div 12 = k div 12 + 1 \<and> (k + 1) mod 12 = 0" by simp
next
  assume a: "k mod 12 \<noteq> 11"
  have b: "0 \<le> k mod 12" "k mod 12 < 12" by simp_all
  have "k + 1 = 12 * (k div 12) + (k mod 12 + 1)"
    using mult_div_mod_eq [of 12 k] by simp
  from int_div_pos_eq [OF this] int_mod_pos_eq [OF this] a b
  show "(k + 1) div 12 = k div 12 \<and> (k + 1) mod 12 = k mod 12 + 1" by simp
qed

lemma monthStart_strict: "monthStart k < monthStart (k + 1)"
proof -
  let ?y = "k div 12" and ?m = "k mod 12"
  have "MakeDay 0 k 1 < MakeDay 0 (k + 1) 1"
  proof (cases "?m = 11")
    case True
    from month_succ(1) [OF True] True InLeapYear_cases [of ?y] DayFromYear_Suc [of ?y]
    show ?thesis
      by (simp add: MakeDay_def DaysBeforeMonth_def DaysInYear_leap Let_def)
  next
    case False
    have "0 \<le> ?m" "?m < 12" by simp_all
    with False have "?m = 0 \<or> ?m = 1 \<or> ?m = 2 \<or> ?m = 3 \<or> ?m = 4 \<or> ?m = 5 \<or> ?m = 6
        \<or> ?m = 7 \<or> ?m = 8 \<or> ?m = 9 \<or> ?m = 10"
      by arith
    with month_succ(2) [OF False] InLeapYear_cases [of ?y] show ?thesis
      by (elim disjE) (simp_all add: MakeDay_def DaysBeforeMonth_def Let_def)
  qed
  then show ?thesis
    using msPerDay_pos by (simp add: monthStart_def MakeDate_def)
qed

lemma monthStart_mono_nat: "0 < j \<Longrightarrow> monthStart k < monthStart (k + int j)"
proof (induction j)
  case 0
  then show ?case by simp
next
  case (Suc j)
  have "k + int (Suc j) = k + int j + 1" by simp
  then have s: "monthStart (k + int j) < monthStart (k + int (Suc j))"
    using monthStart_strict [of "k + int j"] by (simp only:)
  show ?case
  proof (cases "j = 0")
    case True
    with s show ?thesis by simp
  next
    case False
    with Suc.IH s show ?thesis by simp
  qed
qed

section \<open>The month window\<close>

text \<open>
  An active month is the record \<^verbatim>\<open>{year, month, date}\<close> that \<^verbatim>\<open>ut\<close>
  (getDateMonthAndYear) builds from the start of a date's month. \<^verbatim>\<open>lt\<close>
  (getInitialMonths) and \<^verbatim>\<open>pt\<close> (getNextActiveMonth) build lists of them with
  \<^verbatim>\<open>Array.from(Array(n).keys()).reduce(...)\<close>, a loop of \<open>n\<close> rounds over an
  accumulator; the number of months is a natural number, as \<^verbatim>\<open>Array(n)\<close> demands.
\<close>

record ActiveMonth =
  year :: int
  month :: int
  date :: Date

definition getDateMonthAndYear :: "Date \<Rightarrow> ActiveMonth" where
  "getDateMonthAndYear e =
     (let t = startOfMonth e
      in \<lparr>year = getFullYear t, month = getMonth t, date = t\<rparr>)"

text \<open>
  The rounds of \<^verbatim>\<open>lt\<close>: each appends the month after the last entry. The accumulator
  starts with one entry, so \<^verbatim>\<open>e[e.length - 1]\<close> always exists.
\<close>

fun appendMonths :: "nat \<Rightarrow> ActiveMonth list \<Rightarrow> ActiveMonth list" where
  "appendMonths 0 e = e"
| "appendMonths (Suc k) e =
     appendMonths k (e @ [getDateMonthAndYear (addMonths (date (last e)) 1)])"

text \<open>
  \<^verbatim>\<open>lt(e, t)\<close>: \<open>now\<close> is the value of \<^verbatim>\<open>Date.now()\<close>, read only when the anchor
  \<open>t\<close> is null. Without the guard \<^verbatim>\<open>e > 1\<close> the result is the anchor's month alone.
\<close>

definition getInitialMonths :: "Date \<Rightarrow> nat \<Rightarrow> Date option \<Rightarrow> ActiveMonth list" where
  "getInitialMonths now e t =
     (let r = getDateMonthAndYear (case t of Some v \<Rightarrow> v | None \<Rightarrow> startOfDay now);
          a = [r]
      in if e > 1 then appendMonths (e - 1) a else a)"

text \<open>
  The rounds of \<^verbatim>\<open>pt(e, t, r)\<close>. The closure variable \<open>n\<close> moves by \<open>r\<close> months in
  the first round (empty accumulator) and by one month, forward when \<^verbatim>\<open>r >= 0\<close>, in
  the later ones; the new entry goes to the back when \<^verbatim>\<open>r > 0\<close> and to the front
  otherwise.
\<close>

fun shiftMonths :: "nat \<Rightarrow> int \<Rightarrow> Date \<Rightarrow> ActiveMonth list \<Rightarrow> ActiveMonth list" where
  "shiftMonths 0 r n e = e"
| "shiftMonths (Suc k) r n e =
     (let n' = (if length e = 0 then addMonths n r
                else addMonths n (if r \<ge> 0 then 1 else - 1))
      in shiftMonths k r n'
           (if r > 0 then e @ [getDateMonthAndYear n'] else [getDateMonthAndYear n'] @ e))"

text \<open>
  \<^verbatim>\<open>pt\<close> starts from the last entry of the window for \<^verbatim>\<open>r > 0\<close> and from the first
  otherwise; on an empty window \<^verbatim>\<open>e[...].date\<close> is a TypeError.
\<close>

definition getNextActiveMonth :: "ActiveMonth list \<Rightarrow> nat \<Rightarrow> int \<Rightarrow> error + ActiveMonth list" where
  "getNextActiveMonth e t r =
     (if e = [] then Inl TypeError
      else Inr (shiftMonths t r (date (if r > 0 then last e else hd e)) []))"

text \<open>
  What a window is: \<open>monthWindow k n\<close> lists the entries of the \<open>n\<close> consecutive months
  of indices \<open>k, k + 1, \<dots>\<close>, in this order.
\<close>

definition monthEntry :: "int \<Rightarrow> ActiveMonth" where
  "monthEntry k = \<lparr>year = k div 12, month = k mod 12, date = monthStart k\<rparr>"

definition monthWindow :: "int \<Rightarrow> nat \<Rightarrow> ActiveMonth list" where
  "monthWindow k n = map (\<lambda>i. monthEntry (k + int i)) [0..<n]"

lemma getDateMonthAndYear_eq: "getDateMonthAndYear t = monthEntry (monthIndex t)"
  by (simp add: getDateMonthAndYear_def Let_def startOfMonth_eq monthStart_fields monthEntry_def)

lemma getDateMonthAndYear_monthStart: "getDateMonthAndYear (monthStart k) = monthEntry k"
  by (simp add: getDateMonthAndYear_eq monthIndex_monthStart)

lemma monthWindow_Suc: "monthWindow k (Suc n) = monthWindow k n @ [monthEntry (k + int n)]"
  by (simp add: monthWindow_def)

lemma monthWindow_Cons: "monthWindow k (Suc n) = monthEntry k # monthWindow (k + 1) n"
proof -
  have "[0..<Suc n] = 0 # map Suc [0..<n]"
    by (simp add: upt_conv_Cons map_Suc_upt del: upt_Suc)
  then show ?thesis
    by (simp add: monthWindow_def comp_def algebra_simps del: upt_Suc)
qed

lemma length_monthWindow [simp]: "length (monthWindow k n) = n"
  by (simp add: monthWindow_def)

lemma last_monthWindow: "last (monthWindow k (Suc n)) = monthEntry (k + int n)"
  by (simp add: monthWindow_Suc)

lemma hd_monthWindow: "hd (monthWindow k (Suc n)) = monthEntry k"
  by (simp add: monthWindow_Cons)

lemma date_monthEntry [simp]: "date (monthEntry k) = monthStart k"
  by (simp add: monthEntry_def)

lemma monthWindow_nonempty: "0 < n \<Longrightarrow> monthWindow k n \<noteq> []"
  by (simp add: monthWindow_def)

lemma monthWindow_single: "[monthEntry c] = monthWindow c (Suc 0)"
  by (simp add: monthWindow_def)

text \<open>The anchors of a window are in strictly increasing chronological order.\<close>

lemma monthWindow_increasing: "sorted_wrt (\<lambda>a b. date a < date b) (monthWindow k n)"
proof -
  have "date (monthWindow k n ! i) < date (monthWindow k n ! j)" if "i < j" "j < n" for i j
  proof -
    have "monthStart (k + int i) < monthStart (k + int i + int (j - i))"
      using that(1) by (intro monthStart_mono_nat) simp
    moreover have "k + int i + int (j - i) = k + int j" using that(1) by simp
    ultimately show ?thesis using that by (simp add: monthWindow_def)
  qed
  then show ?thesis by (simp add: sorted_wrt_iff_nth_less)
qed

lemma appendMonths_window:
  "appendMonths m (monthWindow k (Suc j)) = monthWindow k (Suc j + m)"
proof (induction m arbitrary: j)
  case 0
  then show ?case by simp
next
  case (Suc m)
  have "monthWindow k (Suc j) @ [getDateMonthAndYear (addMonths (date (last (monthWindow k (Suc j)))) 1)]
      = monthWindow k (Suc (Suc j))"
    by (simp add: last_monthWindow addMonths_monthStart getDateMonthAndYear_monthStart
        monthWindow_Suc [of k "Suc j"] ac_simps)
  then show ?case using Suc.IH [of "Suc j"] by simp
qed

text \<open>The initial window holds the anchor's month and the months after it.\<close>

lemma getInitialMonths_window:
  "getInitialMonths now n (Some t) = monthWindow (monthIndex t) (max 1 n)"
proof (cases "n > 1")
  case True
  then obtain m where n: "n = Suc (Suc m)"
    by (cases n) (auto simp: gr0_conv_Suc)
  have a: "[getDateMonthAndYear t] = monthWindow (monthIndex t) (Suc 0)"
    by (simp add: getDateMonthAndYear_eq monthWindow_def)
  have "getInitialMonths now n (Some t) = appendMonths (Suc m) [getDateMonthAndYear t]"
    by (simp add: getInitialMonths_def Let_def n del: appendMonths.simps)
  also have "\<dots> = appendMonths (Suc m) (monthWindow (monthIndex t) (Suc 0))"
    by (simp only: a)
  also have "\<dots> = monthWindow (monthIndex t) (Suc 0 + Suc m)"
    by (rule appendMonths_window)
  finally show ?thesis by (simp add: n)
next
  case False
  then have "max 1 n = Suc 0" by simp
  with False show ?thesis
    by (simp add: getInitialMonths_def Let_def getDateMonthAndYear_eq monthWindow_def)
qed

lemma shiftMonths_first:
  "shiftMonths (Suc m) r (monthStart c) [] =
     shiftMonths m r (monthStart (c + r)) [monthEntry (c + r)]"
  by (simp add: Let_def addMonths_monthStart getDateMonthAndYear_monthStart)

lemma shiftMonths_forward:
  assumes "0 < r"
  shows "shiftMonths j r (monthStart (a + int i)) (monthWindow a (Suc i)) = monthWindow a (Suc i + j)"
proof (induction j arbitrary: i)
  case 0
  then show ?case by simp
next
  case (Suc j)
  have "shiftMonths (Suc j) r (monthStart (a + int i)) (monthWindow a (Suc i))
      = shiftMonths j r (monthStart (a + int (Suc i))) (monthWindow a (Suc (Suc i)))"
    using assms
    by (simp add: Let_def addMonths_monthStart getDateMonthAndYear_monthStart
        monthWindow_Suc [of a "Suc i"] ac_simps)
  then show ?case using Suc.IH [of "Suc i"] by simp
qed

lemma shiftMonths_backward:
  assumes "r < 0"
  shows "shiftMonths j r (monthStart a) (monthWindow a (Suc i))
      = monthWindow (a - int j) (Suc i + j)"
proof (induction j arbitrary: a i)
  case 0
  then show ?case by simp
next
  case (Suc j)
  have "shiftMonths (Suc j) r (monthStart a) (monthWindow a (Suc i))
      = shiftMonths j r (monthStart (a - 1)) (monthWindow (a - 1) (Suc (Suc i)))"
    using assms
    by (simp add: Let_def addMonths_monthStart getDateMonthAndYear_monthStart
        monthWindow_Cons [of "a - 1" "Suc i"])
  then show ?case using Suc.IH [of "a - 1" "Suc i"] by (simp add: algebra_simps)
qed

lemma shiftMonths_zero:
  "shiftMonths j 0 (monthStart (a + int i)) (rev (monthWindow a (Suc i)))
      = rev (monthWindow a (Suc i + j))"
proof (induction j arbitrary: i)
  case 0
  then show ?case by simp
next
  case (Suc j)
  have "shiftMonths (Suc j) 0 (monthStart (a + int i)) (rev (monthWindow a (Suc i)))
      = shiftMonths j 0 (monthStart (a + int (Suc i))) (rev (monthWindow a (Suc (Suc i))))"
    by (simp add: Let_def addMonths_monthStart getDateMonthAndYear_monthStart
        monthWindow_Suc [of a "Suc i"] ac_simps)
  then show ?case using Suc.IH [of "Suc i"] by simp
qed

text \<open>
  A forward move puts the new window behind the old one: its first month is \<open>r\<close> months
  after the old last month.
\<close>

lemma getNextActiveMonth_forward:
  assumes "0 < n" "0 < r"
  shows "getNextActiveMonth (monthWindow k n) n r = Inr (monthWindow (k + r + int n - 1) n)"
proof -
  obtain m where n: "n = Suc m" using assms(1) by (cases n) auto
  define c where "c = k + int m + r"
  have c: "k + r + int n - 1 = c" by (simp add: c_def n)
  have "getNextActiveMonth (monthWindow k n) n r
      = Inr (shiftMonths (Suc m) r (monthStart (k + int m)) [])"
    using assms(2) monthWindow_nonempty [of n k]
    by (simp add: getNextActiveMonth_def n last_monthWindow del: shiftMonths.simps)
  also have "shiftMonths (Suc m) r (monthStart (k + int m)) []
      = shiftMonths m r (monthStart (c + int 0)) (monthWindow c (Suc 0))"
    unfolding shiftMonths_first monthWindow_single c_def by simp
  also have "\<dots> = monthWindow c (Suc 0 + m)"
    by (rule shiftMonths_forward [OF assms(2)])
  finally show ?thesis unfolding c by (simp add: n)
qed

text \<open>
  A backward move puts the new window before the old one: its last month is \<open>- r\<close>
  months before the old first month.
\<close>

lemma getNextActiveMonth_backward:
  assumes "0 < n" "r < 0"
  shows "getNextActiveMonth (monthWindow k n) n r = Inr (monthWindow (k + r - int n + 1) n)"
proof -
  obtain m where n: "n = Suc m" using assms(1) by (cases n) auto
  define c where "c = k + r"
  have c: "k + r - int n + 1 = c - int m" by (simp add: c_def n)
  have "getNextActiveMonth (monthWindow k n) n r
      = Inr (shiftMonths (Suc m) r (monthStart k) [])"
    using assms(2) monthWindow_nonempty [of n k]
    by (simp add: getNextActiveMonth_def n hd_monthWindow del: shiftMonths.simps)
  also have "shiftMonths (Suc m) r (monthStart k) []
      = shiftMonths m r (monthStart c) (monthWindow c (Suc 0))"
    unfolding shiftMonths_first monthWindow_single c_def by simp
  also have "\<dots> = monthWindow (c - int m) (Suc 0 + m)"
    by (rule shiftMonths_backward [OF assms(2)])
  finally show ?thesis unfolding c by (simp add: n)
qed

text \<open>
  A move by zero months steps forward from the first month but puts every new entry in
  front, so the window comes back in reverse.
\<close>

lemma getNextActiveMonth_zero:
  assumes "0 < n"
  shows "getNextActiveMonth (monthWindow k n) n 0 = Inr (rev (monthWindow k n))"
proof -
  obtain m where n: "n = Suc m" using assms(1) by (cases n) auto
  have "getNextActiveMonth (monthWindow k n) n 0
      = Inr (shiftMonths (Suc m) 0 (monthStart k) [])"
    using monthWindow_nonempty [of n k]
    by (simp add: getNextActiveMonth_def n hd_monthWindow del: shiftMonths.simps)
  also have "shiftMonths (Suc m) 0 (monthStart k) []
      = shiftMonths m 0 (monthStart (k + int 0)) (rev (monthWindow k (Suc 0)))"
    unfolding shiftMonths_first by (simp add: monthWindow_def)
  also have "\<dots> = rev (monthWindow k (Suc 0 + m))"
    by (rule shiftMonths_zero)
  finally show ?thesis by (simp add: n)
qed

section \<open>The hook useDatepicker\<close>

text \<open>
  The hook is a controlled component: the selection \<^verbatim>\<open>startDate\<close>, \<^verbatim>\<open>endDate\<close>,
  \<^verbatim>\<open>focusedInput\<close> comes in with the props, and the hook proposes a new one by calling
  \<^verbatim>\<open>onDatesChange\<close>. Its own state is \<^verbatim>\<open>activeMonths\<close>, \<^verbatim>\<open>hoveredDate\<close> and
  \<^verbatim>\<open>focusedDate\<close>. A null \<^verbatim>\<open>focusedInput\<close> or date is \<open>None\<close>.
\<close>

datatype FocusedInput = START_DATE | END_DATE

record OnDatesChangeProps =
  focusedInput :: "FocusedInput option"
  startDate :: "Date option"
  endDate :: "Date option"

text \<open>
  The props share the three selection fields with \<^verbatim>\<open>OnDatesChangeProps\<close>; the caller's
  \<^verbatim>\<open>isDateBlocked\<close> is the field \<open>isDateBlockedProps\<close>, the name it is bound to in the
  hook.
\<close>

record UseDatepickerProps = OnDatesChangeProps +
  minBookingDate :: "Date option"
  maxBookingDate :: "Date option"
  numberOfMonths :: nat
  minBookingDays :: int
  exactMinBookingDays :: bool
  firstDayOfWeek :: nat
  initialVisibleMonth :: "Date option"
  isDateBlockedProps :: "Date \<Rightarrow> bool"
  unavailableDates :: "Date list"

record DatepickerState =
  activeMonths :: "ActiveMonth list"
  hoveredDate :: "Date option"
  focusedDate :: "Date option"

text \<open>The default values of the hook's parameters, with an empty selection.\<close>

definition defaultProps :: UseDatepickerProps where
  "defaultProps =
     \<lparr>focusedInput = Some START_DATE, startDate = None, endDate = None,
      minBookingDate = None, maxBookingDate = None,
      numberOfMonths = 2, minBookingDays = 1, exactMinBookingDays = False,
      firstDayOfWeek = 1, initialVisibleMonth = None,
      isDateBlockedProps = (\<lambda>_. False), unavailableDates = []\<rparr>"

text \<open>The caller takes over what \<^verbatim>\<open>onDatesChange\<close> received.\<close>

definition applyChange ::
  "'a UseDatepickerProps_scheme \<Rightarrow> OnDatesChangeProps \<Rightarrow> 'a UseDatepickerProps_scheme" where
  "applyChange p c =
     p\<lparr>focusedInput := focusedInput c, startDate := startDate c, endDate := endDate c\<rparr>"

text \<open>\<^verbatim>\<open>ct\<close>: some unavailable date is on the same day.\<close>

definition isInUnavailableDates :: "Date list \<Rightarrow> Date \<Rightarrow> bool" where
  "isInUnavailableDates e t = list_ex (\<lambda>x. isSameDay t x) e"

definition disabledDatesByUser :: "'a UseDatepickerProps_scheme \<Rightarrow> Date \<Rightarrow> bool" where
  "disabledDatesByUser p d =
     (isInUnavailableDates (unavailableDates p) d \<or> isDateBlockedProps p d)"

text \<open>
  \<^verbatim>\<open>gt\<close>, canSelectRange, with the fields of its argument object in the order
  \<^verbatim>\<open>startDate\<close>, \<^verbatim>\<open>endDate\<close>, \<^verbatim>\<open>isDateBlocked\<close>, \<^verbatim>\<open>minBookingDays\<close>,
  \<^verbatim>\<open>exactMinBookingDays\<close>, \<^verbatim>\<open>minBookingDate\<close>, \<^verbatim>\<open>maxBookingDate\<close>; a field the caller
  leaves out is \<open>False\<close> or \<open>None\<close>. The source returns
  \<^verbatim>\<open>!((!t || 1 !== a || r || n(t)) && (cond ? days(t, t + a - 1).some(n) : (!t || !r || o || rt(r, t + a - 1) || days(t, r).some(n))))\<close>.
  With a null \<^verbatim>\<open>startDate\<close> both conjuncts are true. The bounds \<open>s\<close> and \<open>c\<close> are
  read in exact mode only, and \<open>s\<close> accepts a start up to one day before
  \<^verbatim>\<open>minBookingDate\<close>. \<^verbatim>\<open>Ve\<close> may throw, so the result is a sum.
\<close>

definition canSelectRange ::
  "Date option \<Rightarrow> Date option \<Rightarrow> (Date \<Rightarrow> bool) \<Rightarrow> int \<Rightarrow> bool \<Rightarrow> Date option \<Rightarrow> Date option
    \<Rightarrow> error + bool" where
  "canSelectRange startD endD blocked a exact minD maxD =
     (case startD of
        None \<Rightarrow> Inr False
      | Some t \<Rightarrow>
          (let s = (case minD of None \<Rightarrow> True | Some i \<Rightarrow> \<not> isBefore t (addDays i (- 1)));
               c = (case maxD of None \<Rightarrow> True | Some d \<Rightarrow> \<not> isAfter (addDays t (a - 1)) d)
           in if \<not> (1 \<noteq> a \<or> endD \<noteq> None \<or> blocked t) then Inr True
              else if (a > 1 \<and> endD = None \<and> \<not> exact)
                    \<or> (a > 0 \<and> exact \<and> s \<and> c)
                    \<or> (a > 0 \<and> exact \<and> minD = None \<and> maxD = None)
              then (case eachDayOfInterval t (addDays t (a - 1)) of
                      Inl err \<Rightarrow> Inl err
                    | Inr days \<Rightarrow> Inr (\<not> list_ex blocked days))
              else (case endD of
                      None \<Rightarrow> Inr False
                    | Some r \<Rightarrow>
                        if exact then Inr False
                        else if isBefore r (addDays t (a - 1)) then Inr False
                        else (case eachDayOfInterval t r of
                                Inl err \<Rightarrow> Inl err
                              | Inr days \<Rightarrow> Inr (\<not> list_ex blocked days)))))"

text \<open>
  The bound \<^verbatim>\<open>new Date(r.getFullYear(), r.getMonth(), r.getDate(), 0, 0, 0)\<close> that
  isDateBlocked computes from \<^verbatim>\<open>minBookingDate\<close> and from \<^verbatim>\<open>maxBookingDate\<close>.
\<close>

definition localMidnight :: "Date \<Rightarrow> Date" where
  "localMidnight r = newDate (getFullYear r) (getMonth r) (getDate r)"

text \<open>
  The utility isDateBlocked (the inner function of \<^verbatim>\<open>F\<close>), arguments in the order
  \<^verbatim>\<open>date\<close>, \<^verbatim>\<open>minBookingDate\<close>, \<^verbatim>\<open>maxBookingDate\<close>, \<^verbatim>\<open>isDateBlockedFn\<close>, \<^verbatim>\<open>startDate\<close>,
  \<^verbatim>\<open>endDate\<close>, \<^verbatim>\<open>minBookingDays\<close>, \<^verbatim>\<open>unavailableDates\<close>. The disjuncts are tried in the
  order of the source; \<^verbatim>\<open>at\<close> may throw.
\<close>

definition isDateBlockedFn ::
  "Date \<Rightarrow> Date option \<Rightarrow> Date option \<Rightarrow> (Date \<Rightarrow> bool) option \<Rightarrow> Date option \<Rightarrow> Date option
    \<Rightarrow> int \<Rightarrow> Date list \<Rightarrow> error + bool" where
  "isDateBlockedFn t minD maxD blockedFn startD endD s u =
     (let l = map_option localMidnight minD;
          p = map_option localMidnight maxD;
          byCaller = (case blockedFn of None \<Rightarrow> False | Some a \<Rightarrow> a t)
      in if isInUnavailableDates u t then Inr True
         else if (case l of None \<Rightarrow> False | Some lv \<Rightarrow> isBefore t lv) then Inr True
         else if (case p of None \<Rightarrow> False | Some pv \<Rightarrow> isAfter t pv) then Inr True
         else (case startD of
                 None \<Rightarrow> Inr byCaller
               | Some sd \<Rightarrow>
                   if endD = None \<and> s > 1
                   then (case isWithinInterval t sd (addDays sd (s - 2)) of
                           Inl err \<Rightarrow> Inl err
                         | Inr w \<Rightarrow> if w then Inr True else Inr byCaller)
                   else Inr byCaller))"

text \<open>
  The hook's isDateBlocked: it passes \<^verbatim>\<open>disabledDatesByUser\<close> as the caller's predicate
  and no \<^verbatim>\<open>unavailableDates\<close>, and it has no exact-mode argument to pass.
\<close>

definition isDateBlocked :: "'a UseDatepickerProps_scheme \<Rightarrow> Date \<Rightarrow> error + bool" where
  "isDateBlocked p d =
     isDateBlockedFn d (minBookingDate p) (maxBookingDate p) (Some (disabledDatesByUser p))
       (startDate p) (endDate p) (minBookingDays p) []"

text \<open>
  The hook's \<^verbatim>\<open>isSameMonth\<close> is bound by
  \<^verbatim>\<open>import isSameMonth from 'date-fns/isSameDay'\<close>; the bundle calls \<^verbatim>\<open>it\<close>, isSameDay,
  in both places.
\<close>

definition isSameMonth :: "Date \<Rightarrow> Date \<Rightarrow> bool" where
  "isSameMonth = isSameDay"

text \<open>The initial state of the hook.\<close>

definition useDatepickerInit :: "Date \<Rightarrow> 'a UseDatepickerProps_scheme \<Rightarrow> DatepickerState" where
  "useDatepickerInit now p =
     \<lparr>activeMonths =
        (case startDate p of
           Some sd \<Rightarrow> getInitialMonths now (numberOfMonths p) (Some sd)
         | None \<Rightarrow> getInitialMonths now (numberOfMonths p) (initialVisibleMonth p)),
      hoveredDate = None,
      focusedDate = startDate p\<rparr>"

definition onDateFocus ::
  "Date \<Rightarrow> 'a UseDatepickerProps_scheme \<Rightarrow> DatepickerState \<Rightarrow> Date \<Rightarrow> DatepickerState" where
  "onDateFocus now p s d =
     (let s' = s\<lparr>focusedDate := Some d\<rparr>
      in if (case focusedDate s of None \<Rightarrow> True | Some fd \<Rightarrow> \<not> isSameMonth d fd)
         then s'\<lparr>activeMonths := getInitialMonths now (numberOfMonths p) (Some d)\<rparr>
         else s')"

text \<open>What onResetDates hands to \<^verbatim>\<open>onDatesChange\<close>.\<close>

definition onResetDates :: OnDatesChangeProps where
  "onResetDates = \<lparr>focusedInput = Some START_DATE, startDate = None, endDate = None\<rparr>"

text \<open>The last statement of onDateSelect, which may seed the window anew around the date.\<close>

definition reseedOnSelect ::
  "Date \<Rightarrow> 'a UseDatepickerProps_scheme \<Rightarrow> DatepickerState \<Rightarrow> Date \<Rightarrow> DatepickerState" where
  "reseedOnSelect now p s d =
     (if focusedInput p \<noteq> Some END_DATE
         \<and> (case focusedDate s of None \<Rightarrow> True | Some fd \<Rightarrow> \<not> isSameMonth d fd)
      then s\<lparr>activeMonths := getInitialMonths now (numberOfMonths p) (Some d)\<rparr>
      else s)"

text \<open>
  One arm \<^verbatim>\<open>if (guard && canSelectRange(...)) {...} else ...\<close> of the chain in
  onDateSelect: the check runs only under the guard, and an exception of the check leaves
  the function.
\<close>

definition whenSelectable ::
  "bool \<Rightarrow> error + bool \<Rightarrow> (error + 'a) \<Rightarrow> (error + 'a) \<Rightarrow> error + 'a" where
  "whenSelectable guard check yes no =
     (if guard then (case check of Inl err \<Rightarrow> Inl err | Inr ok \<Rightarrow> if ok then yes else no)
      else no)"

text \<open>
  onDateSelect returns what it handed to \<^verbatim>\<open>onDatesChange\<close>, if anything, and the state
  after its last statement. Only the first arm passes the exact-mode flag and the two
  bounds to canSelectRange.
\<close>

definition onDateSelect ::
  "Date \<Rightarrow> 'a UseDatepickerProps_scheme \<Rightarrow> DatepickerState \<Rightarrow> Date
    \<Rightarrow> error + (OnDatesChangeProps option \<times> DatepickerState)" where
  "onDateSelect now p s d =
     (let blocked = disabledDatesByUser p;
          a = minBookingDays p;
          exact = exactMinBookingDays p;
          fi = focusedInput p;
          emit = (\<lambda>c. Inr (Some c, reseedOnSelect now p s d))
      in whenSelectable
           ((fi = Some END_DATE \<or> fi = Some START_DATE) \<and> a > 0 \<and> exact)
           (canSelectRange (Some d) None blocked a exact (minBookingDate p) (maxBookingDate p))
           (emit \<lparr>focusedInput = None, startDate = Some d, endDate = Some (addDays d (a - 1))\<rparr>)
        (whenSelectable
           (((fi = Some END_DATE \<and> (case startDate p of None \<Rightarrow> False | Some sd \<Rightarrow> isBefore d sd))
              \<or> (fi = Some START_DATE \<and> (case endDate p of None \<Rightarrow> False | Some ed \<Rightarrow> isAfter d ed)))
            \<and> \<not> exact)
           (canSelectRange (Some d) None blocked a False None None)
           (emit \<lparr>focusedInput = Some END_DATE, startDate = Some d, endDate = None\<rparr>)
        (whenSelectable
           (fi = Some START_DATE \<and> \<not> exact)
           (canSelectRange (Some d) (endDate p) blocked a False None None)
           (emit \<lparr>focusedInput = Some END_DATE, startDate = Some d, endDate = endDate p\<rparr>)
        (whenSelectable
           (fi = Some START_DATE \<and> \<not> exact)
           (canSelectRange (Some d) None blocked a False None None)
           (emit \<lparr>focusedInput = Some END_DATE, startDate = Some d, endDate = None\<rparr>)
        (whenSelectable
           (fi = Some END_DATE \<and> startDate p \<noteq> None
             \<and> (case startDate p of None \<Rightarrow> False | Some sd \<Rightarrow> \<not> isBefore d sd) \<and> \<not> exact)
           (canSelectRange (startDate p) (Some d) blocked a False None None)
           (emit \<lparr>focusedInput = None, startDate = startDate p, endDate = Some d\<rparr>)
           (Inr (None, reseedOnSelect now p s d)))))))"

text \<open>The four navigation functions; each clears the focused date.\<close>

definition goToPreviousMonths ::
  "'a UseDatepickerProps_scheme \<Rightarrow> DatepickerState \<Rightarrow> error + DatepickerState" where
  "goToPreviousMonths p s =
     (case getNextActiveMonth (activeMonths s) (numberOfMonths p) (- 1) of
        Inl err \<Rightarrow> Inl err
      | Inr w \<Rightarrow> Inr (s\<lparr>activeMonths := w, focusedDate := None\<rparr>))"

definition goToNextMonths ::
  "'a UseDatepickerProps_scheme \<Rightarrow> DatepickerState \<Rightarrow> error + DatepickerState" where
  "goToNextMonths p s =
     (case getNextActiveMonth (activeMonths s) (numberOfMonths p) 1 of
        Inl err \<Rightarrow> Inl err
      | Inr w \<Rightarrow> Inr (s\<lparr>activeMonths := w, focusedDate := None\<rparr>))"

definition goToPreviousYear ::
  "'a UseDatepickerProps_scheme \<Rightarrow> DatepickerState \<Rightarrow> int \<Rightarrow> error + DatepickerState" where
  "goToPreviousYear p s numYears =
     (case getNextActiveMonth (activeMonths s) (numberOfMonths p)
             (- (numYears * 12 - int (numberOfMonths p) + 1)) of
        Inl err \<Rightarrow> Inl err
      | Inr w \<Rightarrow> Inr (s\<lparr>activeMonths := w, focusedDate := None\<rparr>))"

definition goToNextYear ::
  "'a UseDatepickerProps_scheme \<Rightarrow> DatepickerState \<Rightarrow> int \<Rightarrow> error + DatepickerState" where
  "goToNextYear p s numYears =
     (case getNextActiveMonth (activeMonths s) (numberOfMonths p)
             (numYears * 12 - int (numberOfMonths p) + 1) of
        Inl err \<Rightarrow> Inl err
      | Inr w \<Rightarrow> Inr (s\<lparr>activeMonths := w, focusedDate := None\<rparr>))"

text \<open>
  How far getNextActiveMonth moves a window of \<open>n\<close> months for a counter \<open>r\<close> other than
  zero: a whole page further than \<open>r\<close>, in the direction of \<open>r\<close>.
\<close>

definition pageShift :: "nat \<Rightarrow> int \<Rightarrow> int" where
  "pageShift n r = (if 0 < r then r + (int n - 1) else r - (int n - 1))"

text \<open>A state for the examples: January and February 2024 on display, nothing focused.\<close>

definition sampleState :: DatepickerState where
  "sampleState = \<lparr>activeMonths = monthWindow 24288 2, hoveredDate = None, focusedDate = None\<rparr>"

section \<open>Properties of the selection\<close>

subsection \<open>Evaluation and auxiliary facts\<close>

lemmas calendar_eval =
  monthWindow_def monthEntry_def monthStart_def MakeDay_def MakeDate_def DayFromYear_def
  InLeapYear_def DaysInYear_def DaysBeforeMonth_def msPerDay_def Let_def

lemmas fields_eval =
  monthIndex_def getFullYear_def getMonth_def getDate_def YearFromDay_def MonthFromDay_def
  DateFromDay_def DayWithinYear_def DayFromYear_def InLeapYear_def DaysInYear_def
  DaysBeforeMonth_def Day_def msPerDay_def Let_def

lemmas select_eval =
  onDateSelect_def whenSelectable_def canSelectRange_def reseedOnSelect_def
  disabledDatesByUser_def isInUnavailableDates_def isSameMonth_def isSameDay_def startOfDay_def
  eachDayOfInterval_def isBefore_def isAfter_def addDays_eq setHours0_eq TimeWithinDay_def
  Day_def msPerDay_def Let_def

lemma upt_2: "[0..<2] = [0, Suc 0]"
  by (simp add: numeral_2_eq_2)

lemma disabledDatesByUser_selection [simp]:
  "disabledDatesByUser (p\<lparr>focusedInput := a\<rparr>) = disabledDatesByUser p"
  "disabledDatesByUser (p\<lparr>startDate := b\<rparr>) = disabledDatesByUser p"
  "disabledDatesByUser (p\<lparr>endDate := c\<rparr>) = disabledDatesByUser p"
  by (simp_all add: fun_eq_iff disabledDatesByUser_def)

text \<open>
  A closed range passes canSelectRange only when its start is not after its end:
  otherwise eachDayOfInterval throws.
\<close>

lemma canSelectRange_closed_order:
  assumes "canSelectRange (Some t) (Some r) blocked a False None None = Inr True"
  shows "t \<le> r"
  using assms
  by (auto simp: canSelectRange_def Let_def split: if_splits sum.splits
      dest: eachDayOfInterval_Inr)

lemma whenSelectable_emits:
  assumes "whenSelectable g chk (Inr (Some c', s1)) no = Inr (Some c, s')"
  shows "(g \<and> chk = Inr True \<and> c = c' \<and> s' = s1) \<or> no = Inr (Some c, s')"
  using assms by (auto simp: whenSelectable_def split: if_splits sum.splits)

text \<open>Whatever onDateSelect hands to \<^verbatim>\<open>onDatesChange\<close> comes from one of its arms.\<close>

lemma onDateSelect_emits:
  assumes "onDateSelect now p s d = Inr (Some c, s')"
  shows
   "((focusedInput p = Some END_DATE \<or> focusedInput p = Some START_DATE)
       \<and> 0 < minBookingDays p \<and> exactMinBookingDays p
       \<and> c = \<lparr>focusedInput = None, startDate = Some d,
               endDate = Some (addDays d (minBookingDays p - 1))\<rparr>)
    \<or> (\<not> exactMinBookingDays p
       \<and> c = \<lparr>focusedInput = Some END_DATE, startDate = Some d, endDate = None\<rparr>)
    \<or> (focusedInput p = Some START_DATE \<and> \<not> exactMinBookingDays p
       \<and> canSelectRange (Some d) (endDate p) (disabledDatesByUser p) (minBookingDays p)
            False None None = Inr True
       \<and> c = \<lparr>focusedInput = Some END_DATE, startDate = Some d, endDate = endDate p\<rparr>)
    \<or> (focusedInput p = Some END_DATE \<and> \<not> exactMinBookingDays p
       \<and> (\<exists>sd. startDate p = Some sd \<and> \<not> isBefore d sd)
       \<and> canSelectRange (startDate p) (Some d) (disabledDatesByUser p) (minBookingDays p)
            False None None = Inr True
       \<and> c = \<lparr>focusedInput = None, startDate = startDate p, endDate = Some d\<rparr>)"
proof -
  note ws = whenSelectable_emits
  from assms show ?thesis
    unfolding onDateSelect_def Let_def
    apply (drule_tac ws)
    apply (erule disjE)
     apply simp
    apply (drule ws)
    apply (erule disjE)
     apply simp
    apply (drule ws)
    apply (erule disjE)
     apply simp
    apply (drule ws)
    apply (erule disjE)
     apply simp
    apply (drule ws)
    apply (erule disjE)
     apply (auto split: option.splits)[1]
    apply simp
    done
qed

lemma exact_sample:
  "onDateSelect 0
      (defaultProps\<lparr>focusedInput := Some END_DATE, minBookingDays := 3,
         exactMinBookingDays := True\<rparr>)
      sampleState 1704067200000
    = Inr (Some \<lparr>focusedInput = None, startDate = Some 1704067200000,
                 endDate = Some 1704240000000\<rparr>, sampleState)"
  by (simp add: select_eval defaultProps_def eachDayLoop_step)

lemma canSelectRange_exact3:
  assumes "\<forall>k\<in>{0, 1, 2}. \<not> blocked (addDays (startOfDay D) k)"
    and "\<forall>m. minD = Some m \<longrightarrow> m \<le> D"
    and "\<forall>M. maxD = Some M \<longrightarrow> addDays D 2 \<le> M"
  shows "canSelectRange (Some D) None blocked 3 True minD maxD = Inr True"
proof -
  have s: "(case minD of None \<Rightarrow> True | Some i \<Rightarrow> \<not> isBefore D (addDays i (- 1)))"
    using assms(2) by (auto simp: isBefore_def addDays_eq msPerDay_def split: option.splits)
  have c: "(case maxD of None \<Rightarrow> True | Some d \<Rightarrow> \<not> isAfter (addDays D (3 - 1)) d)"
    using assms(3) by (auto simp: isAfter_def split: option.splits)
  have le: "D \<le> addDays D (3 - 1)" by (simp add: addDays_eq msPerDay_def)
  then obtain ds where ds: "eachDayOfInterval D (addDays D (3 - 1)) = Inr ds"
    by (simp add: eachDayOfInterval_def)
  have "\<not> blocked x" if "x \<in> set ds" for x
  proof -
    from eachDayOfInterval_members [OF ds that]
    obtain k where k: "0 \<le> k" "x = addDays (startOfDay D) k" "x \<le> addDays D (3 - 1)"
      by blast
    have "D < startOfDay D + msPerDay"
      using TimeWithinDay_range [of D] by (simp add: startOfDay_def setHours0_eq)
    with k(2,3) have "k * msPerDay < 3 * msPerDay" by (simp add: addDays_eq)
    then have "k < 3" using msPerDay_pos by simp
    with k(1) have "k \<in> {0, 1, 2}" by auto
    with assms(1) k(2) show ?thesis by blast
  qed
  then have "\<not> list_ex blocked ds" by (auto simp: list_ex_iff)
  with s c ds show ?thesis
    by (simp add: canSelectRange_def Let_def)
qed

subsection \<open>The ordering of the selection\<close>

text \<open>
  Claim C1. Whatever onDateSelect or onResetDates hands to \<^verbatim>\<open>onDatesChange\<close>, if it has
  both a start and an end date, the start is not after the end, as time values and so
  as calendar days. The exact-length arm adds \<open>minBookingDays - 1 \<ge> 0\<close> days, the
  end-date arm asks that the date is not before the start, and a start-date pick keeps an
  existing end date only when canSelectRange has walked the days from the one to the other.
  This holds from every prior selection, ordered or not.
\<close>

theorem selection_ordering:
  assumes "onDateSelect now p s d = Inr (Some c, s') \<or> c = onResetDates"
    and "startDate c = Some a" and "endDate c = Some b"
  shows "a \<le> b \<and> Day a \<le> Day b"
proof -
  have "a \<le> b"
  proof (cases "c = onResetDates")
    case True
    with assms(2) show ?thesis by (simp add: onResetDates_def)
  next
    case False
    with assms(1) have "onDateSelect now p s d = Inr (Some c, s')" by simp
    from onDateSelect_emits [OF this] assms(2,3) show ?thesis
      by (auto simp: addDays_eq isBefore_def msPerDay_def dest: canSelectRange_closed_order)
  qed
  then show ?thesis by (simp add: Day_mono)
qed

text \<open>
  An exact three-day booking picked on 2024-01-01 while the end input has the focus:
  the emitted range runs to 2024-01-03.
\<close>

theorem selection_ordering_witness:
  "onDateSelect 0
      (defaultProps\<lparr>focusedInput := Some END_DATE, minBookingDays := 3,
         exactMinBookingDays := True\<rparr>)
      sampleState 1704067200000
    = Inr (Some \<lparr>focusedInput = None, startDate = Some 1704067200000,
                 endDate = Some 1704240000000\<rparr>, sampleState)
   \<and> (1704067200000 :: int) \<le> 1704240000000
   \<and> Day 1704067200000 \<le> Day 1704240000000"
proof -
  note h = exact_sample
  from selection_ordering [OF disjI1 [OF h], of 1704067200000 1704240000000] h
  show ?thesis by simp
qed

subsection \<open>Exact-length bookings\<close>

text \<open>
  Claim C3. In exact mode with \<open>minBookingDays = 3\<close> and the focus on the start or the end
  input, one call of onDateSelect on \<open>D\<close> emits the start \<open>D\<close>, the end \<open>D + 2\<close> days and
  a null \<^verbatim>\<open>focusedInput\<close>, provided the three days from \<open>D\<close> on are not blocked by the
  caller and \<open>D\<close> is not before \<^verbatim>\<open>minBookingDate\<close> nor \<open>D + 2\<close> days after
  \<^verbatim>\<open>maxBookingDate\<close>, where these are set. The blocking predicate is asked about the
  midnights of the three days, which are \<open>D\<close>, \<open>D + 1\<close> and \<open>D + 2\<close> when \<open>D\<close> is a
  midnight.
\<close>

theorem exact_single_commit:
  assumes "exactMinBookingDays p" and "minBookingDays p = 3"
    and "focusedInput p = Some START_DATE \<or> focusedInput p = Some END_DATE"
    and "\<forall>k\<in>{0, 1, 2}. \<not> disabledDatesByUser p (addDays (startOfDay D) k)"
    and "\<forall>m. minBookingDate p = Some m \<longrightarrow> m \<le> D"
    and "\<forall>M. maxBookingDate p = Some M \<longrightarrow> addDays D 2 \<le> M"
  shows "onDateSelect now p s D =
           Inr (Some \<lparr>focusedInput = None, startDate = Some D, endDate = Some (addDays D 2)\<rparr>,
                reseedOnSelect now p s D)"
proof -
  have "canSelectRange (Some D) None (disabledDatesByUser p) 3 True
          (minBookingDate p) (maxBookingDate p) = Inr True"
    using assms(4-6) by (rule canSelectRange_exact3)
  with assms(1-3) show ?thesis
    by (auto simp: onDateSelect_def whenSelectable_def Let_def)
qed

text \<open>
  2024-01-01 picked with the bounds 2024-01-01 and 2024-01-03: the range is the whole
  interval between the bounds.
\<close>

theorem exact_single_commit_witness:
  "onDateSelect 0
      (defaultProps\<lparr>focusedInput := Some START_DATE, minBookingDate := Some 1704067200000,
         maxBookingDate := Some 1704240000000, minBookingDays := 3,
         exactMinBookingDays := True\<rparr>)
      sampleState 1704067200000
    = Inr (Some \<lparr>focusedInput = None, startDate = Some 1704067200000,
                 endDate = Some 1704240000000\<rparr>,
           reseedOnSelect 0
             (defaultProps\<lparr>focusedInput := Some START_DATE,
                minBookingDate := Some 1704067200000, maxBookingDate := Some 1704240000000,
                minBookingDays := 3, exactMinBookingDays := True\<rparr>)
             sampleState 1704067200000)"
  using exact_single_commit [of
      "defaultProps\<lparr>focusedInput := Some START_DATE, minBookingDate := Some 1704067200000,
         maxBookingDate := Some 1704240000000, minBookingDays := 3,
         exactMinBookingDays := True\<rparr>"
      1704067200000 0 sampleState]
  by (simp add: defaultProps_def disabledDatesByUser_def isInUnavailableDates_def addDays_eq
      msPerDay_def)

subsection \<open>A completed selection\<close>

text \<open>
  Claim C10. With a null \<^verbatim>\<open>focusedInput\<close>, onDateSelect hands nothing to
  \<^verbatim>\<open>onDatesChange\<close>, for every date, every constraint and both modes: no arm of the chain
  is entered and canSelectRange is never called. The call still runs its last statement,
  which may seed the visible months anew around the date and leaves the focused and the
  hovered date as they were.
\<close>

theorem completed_selection_frozen:
  assumes "focusedInput p = None"
  shows "onDateSelect now p s d = Inr (None, reseedOnSelect now p s d)
       \<and> focusedDate (reseedOnSelect now p s d) = focusedDate s
       \<and> hoveredDate (reseedOnSelect now p s d) = hoveredDate s"
  using assms by (simp add: onDateSelect_def whenSelectable_def reseedOnSelect_def)

text \<open>The range 2024-01-01 to 2024-01-03 is complete; 2024-01-05 is clicked.\<close>

theorem completed_selection_frozen_witness:
  "focusedInput (defaultProps\<lparr>focusedInput := None, startDate := Some 1704067200000,
       endDate := Some 1704240000000\<rparr>) = None
   \<and> onDateSelect 0
       (defaultProps\<lparr>focusedInput := None, startDate := Some 1704067200000,
          endDate := Some 1704240000000\<rparr>)
       sampleState 1704412800000
     = Inr (None,
         reseedOnSelect 0
           (defaultProps\<lparr>focusedInput := None, startDate := Some 1704067200000,
              endDate := Some 1704240000000\<rparr>)
           sampleState 1704412800000)"
  using completed_selection_frozen [of
      "defaultProps\<lparr>focusedInput := None, startDate := Some 1704067200000,
         endDate := Some 1704240000000\<rparr>" 0 sampleState 1704412800000]
  by simp

subsection \<open>Bounds and the non-exact arms\<close>

lemma localMidnight_eq:
  assumes "\<not> (0 \<le> getFullYear r \<and> getFullYear r \<le> 99)"
  shows "localMidnight r = startOfDay r"
proof -
  have "MakeDay (getFullYear r) (getMonth r) (getDate r + 0) = Day r + 0"
    unfolding getFullYear_def getMonth_def getDate_def by (rule MakeDay_inverse)
  moreover have "(if 0 \<le> getFullYear r \<and> getFullYear r \<le> 99
      then 1900 + getFullYear r else getFullYear r) = getFullYear r"
    using assms by simp
  ultimately show ?thesis
    by (simp add: localMidnight_def newDate_def startOfDay_def setHours0_def)
qed

text \<open>
  Outside exact mode no arm of onDateSelect passes the bounds to canSelectRange, so the
  call gives the same result whatever bounds are configured.
\<close>

lemma onDateSelect_ignores_bounds:
  fixes p :: "'a UseDatepickerProps_scheme"
  assumes "\<not> exactMinBookingDays p"
  shows "onDateSelect now (p\<lparr>minBookingDate := mn, maxBookingDate := mx\<rparr>) s d
           = onDateSelect now p s d"
proof -
  have "disabledDatesByUser (p\<lparr>minBookingDate := mn, maxBookingDate := mx\<rparr>)
      = disabledDatesByUser p"
    by (simp add: fun_eq_iff disabledDatesByUser_def)
  moreover have "reseedOnSelect now (p\<lparr>minBookingDate := mn, maxBookingDate := mx\<rparr>) s d
      = reseedOnSelect now p s d"
    by (simp add: reseedOnSelect_def)
  ultimately show ?thesis
    using assms by (simp add: onDateSelect_def whenSelectable_def Let_def)
qed

text \<open>
  Claim C2 asks that, outside exact mode and with a \<^verbatim>\<open>minBookingDate\<close> configured,
  onDateSelect on a calendar day before \<^verbatim>\<open>minBookingDate\<close> is a silent no-op. The
  claim's own example fails in the code: with the default props, an empty selection, the
  focus on the start input and \<^verbatim>\<open>minBookingDate\<close> 2024-01-10, onDateSelect on 2024-01-05
  hands the start date 2024-01-05 and the focus on the end input to \<^verbatim>\<open>onDatesChange\<close>.
  The four non-exact arms leave the bounds out of their call of canSelectRange, while the
  exact arm of the same function passes them: in exact mode with \<open>minBookingDays = 2\<close> the
  same click on the same props emits nothing.
\<close>

theorem min_date_not_enforced:
  "\<not> exactMinBookingDays (defaultProps\<lparr>minBookingDate := Some 1704844800000\<rparr>)
   \<and> minBookingDate (defaultProps\<lparr>minBookingDate := Some 1704844800000\<rparr>)
       = Some 1704844800000
   \<and> Day 1704412800000 < Day 1704844800000
   \<and> onDateSelect 0 (defaultProps\<lparr>minBookingDate := Some 1704844800000\<rparr>)
        sampleState 1704412800000
      = Inr (Some \<lparr>focusedInput = Some END_DATE, startDate = Some 1704412800000,
                   endDate = None\<rparr>,
             reseedOnSelect 0 (defaultProps\<lparr>minBookingDate := Some 1704844800000\<rparr>)
               sampleState 1704412800000)
   \<and> onDateSelect 0
        (defaultProps\<lparr>minBookingDate := Some 1704844800000, minBookingDays := 2,
           exactMinBookingDays := True\<rparr>)
        sampleState 1704412800000
      = Inr (None,
             reseedOnSelect 0
               (defaultProps\<lparr>minBookingDate := Some 1704844800000, minBookingDays := 2,
                  exactMinBookingDays := True\<rparr>)
               sampleState 1704412800000)"
  by (simp add: onDateSelect_def whenSelectable_def canSelectRange_def disabledDatesByUser_def
      isInUnavailableDates_def defaultProps_def Day_def msPerDay_def isBefore_def addDays_eq)

subsection \<open>The non-exact flow\<close>

lemma canSelectRange_single:
  "\<not> blocked D \<Longrightarrow> canSelectRange (Some D) None blocked 1 False None None = Inr True"
  by (simp add: canSelectRange_def)

lemma canSelectRange_closed:
  assumes "D1 \<le> D2"
    and "\<forall>k. 0 \<le> k \<and> addDays (startOfDay D1) k \<le> D2 \<longrightarrow> \<not> blocked (addDays (startOfDay D1) k)"
  shows "canSelectRange (Some D1) (Some D2) blocked 1 False None None = Inr True"
proof -
  obtain ds where ds: "eachDayOfInterval D1 D2 = Inr ds"
    using assms(1) by (simp add: eachDayOfInterval_def)
  have "\<not> blocked x" if "x \<in> set ds" for x
    using eachDayOfInterval_members [OF ds that] assms(2) by blast
  then have "\<not> list_ex blocked ds" by (auto simp: list_ex_iff)
  with ds assms(1) show ?thesis
    by (simp add: canSelectRange_def Let_def isBefore_def addDays_eq)
qed

text \<open>
  Claim C4, as the code has it. Outside exact mode, with \<open>minBookingDays = 1\<close>, an empty
  selection and the focus on the start input, onDateSelect on an unblocked \<open>D1\<close> emits the
  start \<open>D1\<close> with the focus on the end input (\<open>c1\<close>); fed back, onDateSelect on a later
  \<open>D2\<close>, every day from \<open>D1\<close> to \<open>D2\<close> unblocked, emits the range from \<open>D1\<close> to \<open>D2\<close> with
  a null \<^verbatim>\<open>focusedInput\<close> (\<open>c2\<close>). Fed back again, a third call on \<open>D3\<close> emits nothing,
  because no arm of onDateSelect is open under a null \<^verbatim>\<open>focusedInput\<close>. Once the caller
  has put the focus back on the start input, onDateSelect on an unblocked \<open>D3\<close> after
  \<open>D2\<close> starts over: start \<open>D3\<close>, no end, focus on the end input (\<open>c3\<close>). The states
  \<open>s\<close>, \<open>s1\<close>, \<open>s2\<close>, \<open>s3\<close> of the hook are arbitrary.
\<close>

theorem non_exact_flow:
  fixes p :: "'a UseDatepickerProps_scheme"
  assumes mode: "\<not> exactMinBookingDays p" "minBookingDays p = 1"
    and empty: "startDate p = None" "endDate p = None" "focusedInput p = Some START_DATE"
    and d1: "\<not> disabledDatesByUser p D1"
    and d2: "D1 < D2"
      "\<forall>k. 0 \<le> k \<and> addDays (startOfDay D1) k \<le> D2
          \<longrightarrow> \<not> disabledDatesByUser p (addDays (startOfDay D1) k)"
    and d3: "D2 < D3" "\<not> disabledDatesByUser p D3"
  defines "c1 \<equiv> \<lparr>focusedInput = Some END_DATE, startDate = Some D1, endDate = None\<rparr>"
    and "c2 \<equiv> \<lparr>focusedInput = None, startDate = Some D1, endDate = Some D2\<rparr>"
    and "c3 \<equiv> \<lparr>focusedInput = Some END_DATE, startDate = Some D3, endDate = None\<rparr>"
  defines "p1 \<equiv> applyChange p c1"
  defines "p2 \<equiv> applyChange p1 c2"
  shows "onDateSelect now p s D1 = Inr (Some c1, reseedOnSelect now p s D1)
       \<and> onDateSelect now p1 s1 D2 = Inr (Some c2, reseedOnSelect now p1 s1 D2)
       \<and> onDateSelect now p2 s2 D3 = Inr (None, reseedOnSelect now p2 s2 D3)
       \<and> onDateSelect now (p2\<lparr>focusedInput := Some START_DATE\<rparr>) s3 D3
           = Inr (Some c3, reseedOnSelect now (p2\<lparr>focusedInput := Some START_DATE\<rparr>) s3 D3)"
proof -
  have r1: "canSelectRange (Some D1) None (disabledDatesByUser p) 1 False None None = Inr True"
    using d1 by (rule canSelectRange_single)
  have r2: "canSelectRange (Some D1) (Some D2) (disabledDatesByUser p) 1 False None None = Inr True"
    using d2 by (intro canSelectRange_closed) simp_all
  have r3: "canSelectRange (Some D3) None (disabledDatesByUser p) 1 False None None = Inr True"
    using d3(2) by (rule canSelectRange_single)
  have "onDateSelect now p s D1 = Inr (Some c1, reseedOnSelect now p s D1)"
    using mode empty r1 by (simp add: onDateSelect_def whenSelectable_def Let_def c1_def)
  moreover have "onDateSelect now p1 s1 D2 = Inr (Some c2, reseedOnSelect now p1 s1 D2)"
    using mode d2(1) r2
    by (simp add: onDateSelect_def whenSelectable_def Let_def p1_def applyChange_def
        c1_def c2_def isBefore_def)
  moreover have "onDateSelect now p2 s2 D3 = Inr (None, reseedOnSelect now p2 s2 D3)"
    by (simp add: onDateSelect_def whenSelectable_def Let_def p2_def applyChange_def c2_def)
  moreover have "onDateSelect now (p2\<lparr>focusedInput := Some START_DATE\<rparr>) s3 D3
      = Inr (Some c3, reseedOnSelect now (p2\<lparr>focusedInput := Some START_DATE\<rparr>) s3 D3)"
    using mode d3(1) r3
    by (simp add: onDateSelect_def whenSelectable_def Let_def p2_def p1_def applyChange_def
        c1_def c2_def c3_def isAfter_def)
  ultimately show ?thesis by simp
qed

text \<open>
  The three clicks of the counterexample below, then the click on 2024-01-05 again after
  the focus went back to the start input.
\<close>

theorem non_exact_flow_witness:
  "onDateSelect 0
     (applyChange
        (applyChange defaultProps
           \<lparr>focusedInput = Some END_DATE, startDate = Some 1704067200000, endDate = None\<rparr>)
        \<lparr>focusedInput = None, startDate = Some 1704067200000, endDate = Some 1704240000000\<rparr>
      \<lparr>focusedInput := Some START_DATE\<rparr>)
     sampleState 1704412800000
   = Inr (Some \<lparr>focusedInput = Some END_DATE, startDate = Some 1704412800000, endDate = None\<rparr>,
          reseedOnSelect 0
            (applyChange
               (applyChange defaultProps
                  \<lparr>focusedInput = Some END_DATE, startDate = Some 1704067200000,
                     endDate = None\<rparr>)
               \<lparr>focusedInput = None, startDate = Some 1704067200000,
                  endDate = Some 1704240000000\<rparr>
             \<lparr>focusedInput := Some START_DATE\<rparr>)
            sampleState 1704412800000)"
  using non_exact_flow [of defaultProps 1704067200000 1704240000000 1704412800000
      0 sampleState sampleState sampleState sampleState]
  by (simp add: defaultProps_def disabledDatesByUser_def isInUnavailableDates_def)

text \<open>
  The claim fails at its last step: 2024-01-01, then 2024-01-03, then 2024-01-05, each
  emitted selection fed back. The first two calls emit what the claim says; the third
  emits nothing, and start and end stay 2024-01-01 and 2024-01-03.
\<close>

theorem non_exact_flow_counterexample:
  "onDateSelect 0 defaultProps sampleState 1704067200000
     = Inr (Some \<lparr>focusedInput = Some END_DATE, startDate = Some 1704067200000,
                  endDate = None\<rparr>,
            reseedOnSelect 0 defaultProps sampleState 1704067200000)
   \<and> onDateSelect 0
       (applyChange defaultProps
          \<lparr>focusedInput = Some END_DATE, startDate = Some 1704067200000, endDate = None\<rparr>)
       (reseedOnSelect 0 defaultProps sampleState 1704067200000) 1704240000000
     = Inr (Some \<lparr>focusedInput = None, startDate = Some 1704067200000,
                  endDate = Some 1704240000000\<rparr>,
            reseedOnSelect 0 defaultProps sampleState 1704067200000)
   \<and> onDateSelect 0
       (applyChange
          (applyChange defaultProps
             \<lparr>focusedInput = Some END_DATE, startDate = Some 1704067200000, endDate = None\<rparr>)
          \<lparr>focusedInput = None, startDate = Some 1704067200000,
             endDate = Some 1704240000000\<rparr>)
       (reseedOnSelect 0 defaultProps sampleState 1704067200000) 1704412800000
     = Inr (None,
            reseedOnSelect 0
              (applyChange
                 (applyChange defaultProps
                    \<lparr>focusedInput = Some END_DATE, startDate = Some 1704067200000,
                       endDate = None\<rparr>)
                 \<lparr>focusedInput = None, startDate = Some 1704067200000,
                    endDate = Some 1704240000000\<rparr>)
              (reseedOnSelect 0 defaultProps sampleState 1704067200000) 1704412800000)"
  by (simp add: select_eval applyChange_def defaultProps_def eachDayLoop_step)

subsection \<open>Blocked dates\<close>

text \<open>
  Claim C5, as the code has it. isDateBlocked returns true exactly when the date is before
  the local midnight of \<^verbatim>\<open>minBookingDate\<close>, or after the local midnight of
  \<^verbatim>\<open>maxBookingDate\<close>, or is in \<^verbatim>\<open>unavailableDates\<close> or blocked by the caller's
  predicate, or when there is a start date and no end date, \<open>minBookingDays > 1\<close>, and the
  date lies from \<^verbatim>\<open>startDate\<close> to \<open>minBookingDays - 2\<close> days after it, both ends
  included. The start date itself is in that window, and exact mode is not asked about:
  the function has no such argument. It never throws.
\<close>

theorem isDateBlocked_iff:
  "isDateBlocked p d =
     Inr ((\<exists>m. minBookingDate p = Some m \<and> isBefore d (localMidnight m))
        \<or> (\<exists>M. maxBookingDate p = Some M \<and> isAfter d (localMidnight M))
        \<or> disabledDatesByUser p d
        \<or> (\<exists>sd. startDate p = Some sd \<and> endDate p = None \<and> 1 < minBookingDays p
              \<and> sd \<le> d \<and> d \<le> addDays sd (minBookingDays p - 2)))"
proof -
  have w: "isWithinInterval d sd (addDays sd (n - 2))
      = Inr (sd \<le> d \<and> d \<le> addDays sd (n - 2))" if "1 < n" for sd n
    using that msPerDay_pos by (simp add: isWithinInterval_def addDays_eq)
  show ?thesis
    by (cases "minBookingDate p"; cases "maxBookingDate p"; cases "startDate p";
        cases "endDate p")
      (auto simp: isDateBlocked_def isDateBlockedFn_def Let_def isInUnavailableDates_def w)
qed

text \<open>
  With the start date 2024-01-01, no end date and \<open>minBookingDays = 3\<close>, the day
  2024-01-02 is in the reserved window and 2024-01-03 is free.
\<close>

theorem isDateBlocked_iff_witness:
  "isDateBlocked
     (defaultProps\<lparr>focusedInput := Some END_DATE, startDate := Some 1704067200000,
        minBookingDays := 3\<rparr>) 1704153600000 = Inr True
   \<and> isDateBlocked
     (defaultProps\<lparr>focusedInput := Some END_DATE, startDate := Some 1704067200000,
        minBookingDays := 3\<rparr>) 1704240000000 = Inr False"
  using
    isDateBlocked_iff [of "defaultProps\<lparr>focusedInput := Some END_DATE,
      startDate := Some 1704067200000, minBookingDays := 3\<rparr>" 1704153600000]
    isDateBlocked_iff [of "defaultProps\<lparr>focusedInput := Some END_DATE,
      startDate := Some 1704067200000, minBookingDays := 3\<rparr>" 1704240000000]
  by (simp add: defaultProps_def disabledDatesByUser_def isInUnavailableDates_def addDays_eq
      msPerDay_def)

text \<open>
  The claim fails at the start date: outside exact mode, without bounds and without
  blocking by the caller, with the start date 2024-01-01, no end date and
  \<open>minBookingDays = 2\<close>, isDateBlocked reports 2024-01-01 itself blocked.
\<close>

theorem start_date_blocked_counterexample:
  "\<not> exactMinBookingDays
       (defaultProps\<lparr>focusedInput := Some END_DATE, startDate := Some 1704067200000,
          minBookingDays := 2\<rparr>)
   \<and> \<not> disabledDatesByUser
       (defaultProps\<lparr>focusedInput := Some END_DATE, startDate := Some 1704067200000,
          minBookingDays := 2\<rparr>) 1704067200000
   \<and> isDateBlocked
       (defaultProps\<lparr>focusedInput := Some END_DATE, startDate := Some 1704067200000,
          minBookingDays := 2\<rparr>) 1704067200000 = Inr True"
  by (simp add: isDateBlocked_def isDateBlockedFn_def isWithinInterval_def
      disabledDatesByUser_def isInUnavailableDates_def defaultProps_def addDays_eq)

section \<open>Properties of the month window\<close>

lemma getInitialMonths_anchor:
  "getInitialMonths now n t =
     monthWindow (monthIndex (case t of Some v \<Rightarrow> v | None \<Rightarrow> startOfDay now)) (max 1 n)"
proof (cases t)
  case None
  have "getInitialMonths now n None = getInitialMonths now n (Some (startOfDay now))"
    by (simp add: getInitialMonths_def)
  with None show ?thesis by (simp add: getInitialMonths_window)
next
  case (Some v)
  then show ?thesis by (simp add: getInitialMonths_window)
qed

lemma getNextActiveMonth_page:
  assumes "0 < n" "r \<noteq> 0"
  shows "getNextActiveMonth (monthWindow k n) n r = Inr (monthWindow (k + pageShift n r) n)"
proof (cases "0 < r")
  case True
  have "k + r + int n - 1 = k + pageShift n r" using True by (simp add: pageShift_def)
  with getNextActiveMonth_forward [OF assms(1) True, of k] show ?thesis by simp
next
  case False
  with assms(2) have neg: "r < 0" by simp
  have "k + r - int n + 1 = k + pageShift n r" using neg by (simp add: pageShift_def)
  with getNextActiveMonth_backward [OF assms(1) neg, of k] show ?thesis by simp
qed

lemma sample_windows:
  "monthWindow 24288 2 =
     [\<lparr>year = 2024, month = 0, date = 1704067200000\<rparr>,
      \<lparr>year = 2024, month = 1, date = 1706745600000\<rparr>]"
  "monthWindow 24290 2 =
     [\<lparr>year = 2024, month = 2, date = 1709251200000\<rparr>,
      \<lparr>year = 2024, month = 3, date = 1711929600000\<rparr>]"
  by (simp_all add: calendar_eval upt_2)

text \<open>
  Claim C6, as the code has it. On a window of \<open>numberOfMonths \<ge> 1\<close> consecutive months
  and for a counter \<open>r\<close> other than zero, getNextActiveMonth returns a window of the same
  length whose every month is \<open>pageShift numberOfMonths r\<close> months from the month in its
  place before: \<open>r + (numberOfMonths - 1)\<close> months later for a positive \<open>r\<close>,
  \<open>- r + (numberOfMonths - 1)\<close> months earlier for a negative one. So goToNextMonths and
  goToPreviousMonths turn a whole page of \<open>numberOfMonths\<close> months, and the year functions,
  which pass \<open>12 y - numberOfMonths + 1\<close>, move by twelve months a year when that counter
  is positive. The shift is \<open>r\<close> itself only for a single month on display.
\<close>

theorem window_shift:
  assumes "1 \<le> numberOfMonths p" and "activeMonths s = monthWindow k (numberOfMonths p)"
    and "r \<noteq> 0"
  shows "getNextActiveMonth (activeMonths s) (numberOfMonths p) r
           = Inr (monthWindow (k + pageShift (numberOfMonths p) r) (numberOfMonths p))
       \<and> goToNextMonths p s
           = Inr (s\<lparr>activeMonths := monthWindow (k + int (numberOfMonths p)) (numberOfMonths p),
                    focusedDate := None\<rparr>)
       \<and> goToPreviousMonths p s
           = Inr (s\<lparr>activeMonths := monthWindow (k - int (numberOfMonths p)) (numberOfMonths p),
                    focusedDate := None\<rparr>)"
proof -
  let ?n = "numberOfMonths p"
  have n: "0 < ?n" using assms(1) by simp
  have "getNextActiveMonth (activeMonths s) ?n r = Inr (monthWindow (k + pageShift ?n r) ?n)"
    unfolding assms(2) using n assms(3) by (rule getNextActiveMonth_page)
  moreover have "goToNextMonths p s
      = Inr (s\<lparr>activeMonths := monthWindow (k + int ?n) ?n, focusedDate := None\<rparr>)"
    using getNextActiveMonth_page [OF n, of 1 k]
    by (simp add: goToNextMonths_def assms(2) pageShift_def)
  moreover have "goToPreviousMonths p s
      = Inr (s\<lparr>activeMonths := monthWindow (k - int ?n) ?n, focusedDate := None\<rparr>)"
    using getNextActiveMonth_page [OF n, of "- 1" k]
    by (simp add: goToPreviousMonths_def assms(2) pageShift_def)
  ultimately show ?thesis by simp
qed

text \<open>January and February 2024 on display: the next page is March and April.\<close>

theorem window_shift_witness:
  "1 \<le> numberOfMonths defaultProps
   \<and> activeMonths sampleState = monthWindow 24288 (numberOfMonths defaultProps)
   \<and> goToNextMonths defaultProps sampleState
       = Inr (sampleState\<lparr>activeMonths := monthWindow 24290 2, focusedDate := None\<rparr>)
   \<and> goToPreviousMonths defaultProps sampleState
       = Inr (sampleState\<lparr>activeMonths := monthWindow 24286 2, focusedDate := None\<rparr>)"
  using window_shift [of defaultProps sampleState 24288 1]
  by (simp add: defaultProps_def sampleState_def)

text \<open>
  The claim fails for two months on display: from January and February 2024 the counter
  \<open>1\<close> leads to March and April 2024, two months further and not one.
\<close>

theorem next_month_counterexample:
  "monthWindow 24288 2 =
     [\<lparr>year = 2024, month = 0, date = 1704067200000\<rparr>,
      \<lparr>year = 2024, month = 1, date = 1706745600000\<rparr>]
   \<and> getNextActiveMonth (monthWindow 24288 2) 2 1 =
       Inr [\<lparr>year = 2024, month = 2, date = 1709251200000\<rparr>,
            \<lparr>year = 2024, month = 3, date = 1711929600000\<rparr>]"
proof -
  have "getNextActiveMonth (monthWindow 24288 2) 2 1 = Inr (monthWindow (24288 + 1 + int 2 - 1) 2)"
    by (rule getNextActiveMonth_forward) simp_all
  then show ?thesis by (simp add: sample_windows)
qed

text \<open>
  Claim C7. On a window of \<open>numberOfMonths \<ge> 1\<close> consecutive months, goToNextMonths
  followed by goToPreviousMonths gives the window back; of the state, only the focused
  date has changed, which both clear.
\<close>

theorem next_then_previous_restores:
  assumes "1 \<le> numberOfMonths p" and "activeMonths s = monthWindow k (numberOfMonths p)"
  shows "(case goToNextMonths p s of Inl err \<Rightarrow> Inl err | Inr s1 \<Rightarrow> goToPreviousMonths p s1)
           = Inr (s\<lparr>focusedDate := None\<rparr>)"
proof -
  let ?n = "numberOfMonths p"
  have n: "0 < ?n" using assms(1) by simp
  have "goToNextMonths p s
      = Inr (s\<lparr>activeMonths := monthWindow (k + int ?n) ?n, focusedDate := None\<rparr>)"
    using getNextActiveMonth_page [OF n, of 1 k]
    by (simp add: goToNextMonths_def assms(2) pageShift_def)
  moreover have "goToPreviousMonths p
        (s\<lparr>activeMonths := monthWindow (k + int ?n) ?n, focusedDate := None\<rparr>)
      = Inr (s\<lparr>activeMonths := monthWindow k ?n, focusedDate := None\<rparr>)"
    using getNextActiveMonth_page [OF n, of "- 1" "k + int ?n"]
    by (simp add: goToPreviousMonths_def pageShift_def)
  moreover have "s\<lparr>activeMonths := monthWindow k ?n, focusedDate := None\<rparr> = s\<lparr>focusedDate := None\<rparr>"
    using assms(2) by simp
  ultimately show ?thesis by simp
qed

theorem next_then_previous_restores_witness:
  "1 \<le> numberOfMonths defaultProps
   \<and> activeMonths sampleState = monthWindow 24288 (numberOfMonths defaultProps)
   \<and> (case goToNextMonths defaultProps sampleState of
         Inl err \<Rightarrow> Inl err
       | Inr s1 \<Rightarrow> goToPreviousMonths defaultProps s1)
       = Inr (sampleState\<lparr>focusedDate := None\<rparr>)"
  using next_then_previous_restores [of defaultProps sampleState 24288]
  by (simp add: defaultProps_def sampleState_def)

text \<open>
  For \<open>numberOfMonths \<ge> 1\<close> the window stays a run of \<open>numberOfMonths\<close> consecutive months
  under getInitialMonths and under every navigation whose counter is not zero.
\<close>

lemma navigation_keeps_window:
  assumes "1 \<le> numberOfMonths p" and "activeMonths s = monthWindow k (numberOfMonths p)"
    and "y * 12 - int (numberOfMonths p) + 1 \<noteq> 0"
  shows "getInitialMonths now (numberOfMonths p) t
           = monthWindow (monthIndex (case t of Some v \<Rightarrow> v | None \<Rightarrow> startOfDay now))
               (numberOfMonths p)"
    and "goToNextYear p s y
           = Inr (s\<lparr>activeMonths :=
                      monthWindow (k + pageShift (numberOfMonths p)
                                         (y * 12 - int (numberOfMonths p) + 1))
                        (numberOfMonths p),
                    focusedDate := None\<rparr>)"
    and "goToPreviousYear p s y
           = Inr (s\<lparr>activeMonths :=
                      monthWindow (k + pageShift (numberOfMonths p)
                                         (- (y * 12 - int (numberOfMonths p) + 1)))
                        (numberOfMonths p),
                    focusedDate := None\<rparr>)"
proof -
  let ?n = "numberOfMonths p"
  have n: "0 < ?n" using assms(1) by simp
  have "max 1 ?n = ?n" using assms(1) by simp
  then show "getInitialMonths now ?n t
      = monthWindow (monthIndex (case t of Some v \<Rightarrow> v | None \<Rightarrow> startOfDay now)) ?n"
    using getInitialMonths_anchor [of now ?n t] by simp
  show "goToNextYear p s y
      = Inr (s\<lparr>activeMonths := monthWindow (k + pageShift ?n (y * 12 - int ?n + 1)) ?n,
               focusedDate := None\<rparr>)"
    using getNextActiveMonth_page [OF n assms(3), of k]
    by (simp add: goToNextYear_def assms(2))
  have "- (y * 12 - int ?n + 1) \<noteq> 0" using assms(3) by simp
  from getNextActiveMonth_page [OF n this, of k]
  show "goToPreviousYear p s y
      = Inr (s\<lparr>activeMonths := monthWindow (k + pageShift ?n (- (y * 12 - int ?n + 1))) ?n,
               focusedDate := None\<rparr>)"
    by (simp add: goToPreviousYear_def assms(2))
qed

text \<open>
  Claim C8 asks that the window holds \<open>numberOfMonths\<close> consecutive months in increasing
  order after getInitialMonths and after every navigation call. For \<open>numberOfMonths \<ge> 1\<close>
  and a counter other than zero this is \<open>navigation_keeps_window\<close>. The year functions
  pass the counter \<open>12 y - numberOfMonths + 1\<close>, which is zero for thirteen months on
  display and one year; getNextActiveMonth then steps forward (\<^verbatim>\<open>r >= 0\<close>) and puts
  each new month in front (\<^verbatim>\<open>r > 0\<close> fails), and the window comes back reversed. Here
  the hook starts with January 2024 to January 2025 on display, and goToNextYear(1)
  leaves January 2025 first and January 2024 last.
\<close>

theorem next_year_reverses_window:
  "useDatepickerInit 0
       (defaultProps\<lparr>numberOfMonths := 13, initialVisibleMonth := Some 1704067200000\<rparr>)
     = \<lparr>activeMonths = monthWindow 24288 13, hoveredDate = None, focusedDate = None\<rparr>
   \<and> goToNextYear
       (defaultProps\<lparr>numberOfMonths := 13, initialVisibleMonth := Some 1704067200000\<rparr>)
       \<lparr>activeMonths = monthWindow 24288 13, hoveredDate = None, focusedDate = None\<rparr> 1
     = Inr \<lparr>activeMonths = rev (monthWindow 24288 13), hoveredDate = None, focusedDate = None\<rparr>
   \<and> map (\<lambda>e. (year e, month e)) (rev (monthWindow 24288 13))
     = [(2025, 0), (2024, 11), (2024, 10), (2024, 9), (2024, 8), (2024, 7), (2024, 6),
        (2024, 5), (2024, 4), (2024, 3), (2024, 2), (2024, 1), (2024, 0)]"
proof -
  have i: "monthIndex 1704067200000 = 24288" by (simp add: fields_eval)
  have a: "useDatepickerInit 0
       (defaultProps\<lparr>numberOfMonths := 13, initialVisibleMonth := Some 1704067200000\<rparr>)
     = \<lparr>activeMonths = monthWindow 24288 13, hoveredDate = None, focusedDate = None\<rparr>"
    by (simp add: useDatepickerInit_def defaultProps_def getInitialMonths_anchor i)
  have "getNextActiveMonth (monthWindow 24288 13) 13 0 = Inr (rev (monthWindow 24288 13))"
    by (rule getNextActiveMonth_zero) simp
  then have b: "goToNextYear
       (defaultProps\<lparr>numberOfMonths := 13, initialVisibleMonth := Some 1704067200000\<rparr>)
       \<lparr>activeMonths = monthWindow 24288 13, hoveredDate = None, focusedDate = None\<rparr> 1
     = Inr \<lparr>activeMonths = rev (monthWindow 24288 13), hoveredDate = None, focusedDate = None\<rparr>"
    by (simp add: goToNextYear_def defaultProps_def)
  have c: "map (\<lambda>e. (year e, month e)) (rev (monthWindow 24288 13))
     = [(2025, 0), (2024, 11), (2024, 10), (2024, 9), (2024, 8), (2024, 7), (2024, 6),
        (2024, 5), (2024, 4), (2024, 3), (2024, 2), (2024, 1), (2024, 0)]"
    by (simp add: monthWindow_def monthEntry_def upt_rec [where j = 13])
  from a b c show ?thesis by simp
qed

subsection \<open>Focus and the window\<close>

text \<open>What onDateFocus does when a date has the focus: it seeds the window on any other day.\<close>

lemma onDateFocus_reseeds:
  assumes "focusedDate s = Some fd"
  shows "activeMonths (onDateFocus now p s d)
           = (if Day d = Day fd then activeMonths s
              else monthWindow (monthIndex d) (max 1 (numberOfMonths p)))"
proof -
  have "isSameDay d fd = (Day d = Day fd)"
    using msPerDay_pos by (simp add: isSameDay_def startOfDay_def setHours0_def MakeDate_def)
  with assms show ?thesis
    by (simp add: onDateFocus_def isSameMonth_def getInitialMonths_window)
qed

lemma getInitialMonths_two:
  "getInitialMonths now 2 (Some t) = monthWindow (monthIndex t) 2"
proof -
  have "max 1 (2::nat) = 2" by (simp add: max_def)
  with getInitialMonths_window [of now 2 t] show ?thesis by (simp only:)
qed

text \<open>
  Claim C9 asks that, with a date focused, onDateFocus seeds the window anew exactly when
  the new date lies in another calendar month. The hook's \<^verbatim>\<open>isSameMonth\<close> is isSameDay,
  so it seeds the window on every change of day. Here the hook starts with the start date
  2024-01-10, which is also the focused date; the click on 2024-03-05 moves the window to
  March and April and leaves the focus where it was; focusing 2024-01-11, in the month of
  the focused date, then moves the window to January and February.
\<close>

theorem focus_same_month_reseeds:
  "useDatepickerInit 0 (defaultProps\<lparr>startDate := Some 1704844800000\<rparr>)
     = \<lparr>activeMonths = monthWindow 24288 2, hoveredDate = None,
        focusedDate = Some 1704844800000\<rparr>
   \<and> onDateSelect 0 (defaultProps\<lparr>startDate := Some 1704844800000\<rparr>)
       \<lparr>activeMonths = monthWindow 24288 2, hoveredDate = None,
          focusedDate = Some 1704844800000\<rparr> 1709596800000
     = Inr (Some \<lparr>focusedInput = Some END_DATE, startDate = Some 1709596800000,
                  endDate = None\<rparr>,
            \<lparr>activeMonths = monthWindow 24290 2, hoveredDate = None,
               focusedDate = Some 1704844800000\<rparr>)
   \<and> getFullYear 1704931200000 = getFullYear 1704844800000
   \<and> getMonth 1704931200000 = getMonth 1704844800000
   \<and> onDateFocus 0
       (defaultProps\<lparr>focusedInput := Some END_DATE, startDate := Some 1709596800000\<rparr>)
       \<lparr>activeMonths = monthWindow 24290 2, hoveredDate = None,
          focusedDate = Some 1704844800000\<rparr> 1704931200000
     = \<lparr>activeMonths = monthWindow 24288 2, hoveredDate = None,
        focusedDate = Some 1704931200000\<rparr>
   \<and> monthWindow 24290 2 \<noteq> monthWindow 24288 2"
proof -
  have i: "monthIndex 1704844800000 = 24288" "monthIndex 1704931200000 = 24288"
    "monthIndex 1709596800000 = 24290"
    by (simp_all add: fields_eval)
  have a: "useDatepickerInit 0 (defaultProps\<lparr>startDate := Some 1704844800000\<rparr>)
     = \<lparr>activeMonths = monthWindow 24288 2, hoveredDate = None,
        focusedDate = Some 1704844800000\<rparr>"
    by (simp add: useDatepickerInit_def defaultProps_def getInitialMonths_two i)
  have b: "onDateSelect 0 (defaultProps\<lparr>startDate := Some 1704844800000\<rparr>)
       \<lparr>activeMonths = monthWindow 24288 2, hoveredDate = None,
          focusedDate = Some 1704844800000\<rparr> 1709596800000
     = Inr (Some \<lparr>focusedInput = Some END_DATE, startDate = Some 1709596800000,
                  endDate = None\<rparr>,
            \<lparr>activeMonths = monthWindow 24290 2, hoveredDate = None,
               focusedDate = Some 1704844800000\<rparr>)"
    by (simp add: select_eval defaultProps_def getInitialMonths_two i)
  have c: "getFullYear 1704931200000 = getFullYear 1704844800000"
    "getMonth 1704931200000 = getMonth 1704844800000"
    by (simp_all add: fields_eval)
  have d: "onDateFocus 0
       (defaultProps\<lparr>focusedInput := Some END_DATE, startDate := Some 1709596800000\<rparr>)
       \<lparr>activeMonths = monthWindow 24290 2, hoveredDate = None,
          focusedDate = Some 1704844800000\<rparr> 1704931200000
     = \<lparr>activeMonths = monthWindow 24288 2, hoveredDate = None,
        focusedDate = Some 1704931200000\<rparr>"
    by (simp add: onDateFocus_def isSameMonth_def isSameDay_def startOfDay_def setHours0_eq
        TimeWithinDay_def msPerDay_def defaultProps_def getInitialMonths_two i)
  have e: "monthWindow 24290 2 \<noteq> monthWindow 24288 2"
    by (simp add: sample_windows)
  from a b c d e show ?thesis by simp
qed

end
